theory Spec2Isabelle
  imports Main "HOL-Library.Char_ord" "HOL-Library.List_Lexorder"
begin

text \<open>
  The waitlist API: the Express handlers of api/index.js (deployed on demand, with a
  middleware that connects lazily) and of server.js (a server that connects before it
  listens), over one MongoDB collection of waitlist entries. Handlers are functions from
  an environment, a request and a state to a response and a state; what the source
  throws is a value of a sum type; the store is a list of documents with the operations
  the handlers call.
\<close>

section \<open>JavaScript strings and values\<close>

text \<open>
  A JavaScript string is modelled as a \<^typ>\<open>string\<close> whose characters are the UTF-16
  code units 0 to 255 (the Latin-1 range); strings with larger code units are outside
  the model. On that range \<open>\s\<close> of a regular expression, the white space removed by
  \<open>String.prototype.trim\<close> and the white space skipped by \<open>parseInt\<close> are the same
  seven code units, and \<open>toLowerCase\<close> works character by character.
\<close>

definition isWhiteSpace :: "char \<Rightarrow> bool" where
  "isWhiteSpace c =
     (c = CHR 0x09 \<or> c = CHR 0x0A \<or> c = CHR 0x0B \<or> c = CHR 0x0C \<or> c = CHR 0x0D
      \<or> c = CHR 0x20 \<or> c = CHR 0xA0)"

definition trim :: "string \<Rightarrow> string" where
  "trim s = rev (dropWhile isWhiteSpace (rev (dropWhile isWhiteSpace s)))"

definition toLowerChar :: "char \<Rightarrow> char" where
  "toLowerChar c =
     (let n = (of_char c :: nat)
      in if (65 \<le> n \<and> n \<le> 90) \<or> (192 \<le> n \<and> n \<le> 222 \<and> n \<noteq> 215)
         then char_of (n + 32) else c)"

definition toLowerCase :: "string \<Rightarrow> string" where
  "toLowerCase s = map toLowerChar s"

text \<open>
  A value read from a parsed JSON body: absent (\<open>undefined\<close>), a string, or any other
  JSON value, of which the model keeps what \<open>ToString\<close> makes of it (an array
  \<open>["a@b.com"]\<close> becomes \<open>a@b.com\<close>, \<open>null\<close> becomes \<open>null\<close>).
\<close>

datatype jsval = Undefined | Str string | NonString string

fun ToString :: "jsval \<Rightarrow> string" where
  "ToString Undefined = ''undefined''"
| "ToString (Str s) = s"
| "ToString (NonString s) = s"

section \<open>JavaScript numbers\<close>

text \<open>
  The numbers of a listing are doubles. \<open>parseInt\<close> yields the double nearest to the
  integer it reads, an infinity when that is too large, or \<open>NaN\<close>; the handler subtracts,
  multiplies and takes a minimum, and the one quotient is taken with its ceiling. So every
  number that arises is an integer that is a double, an infinity or \<open>NaN\<close>. The two zeros of
  a double are both \<open>Finite 0\<close>: both are falsy, both are a skip of nothing and both are
  written \<open>0\<close> in JSON.
\<close>

datatype number = Finite int | PosInfinity | NegInfinity | NaN

text \<open>
  Rounding an integer to a double: the 53 leading bits are kept, the rest is rounded to
  the nearest, ties to the even one; from \<open>2^1024\<close> on the result is an infinity.
\<close>

function excessBits :: "int \<Rightarrow> nat" where
  "excessBits m = (if m < 2 ^ 53 then 0 else Suc (excessBits (m div 2)))"
  by pat_completeness auto
termination
  by (relation "measure nat") auto

declare excessBits.simps [simp del]

definition roundDouble :: "int \<Rightarrow> number" where
  "roundDouble n =
     (let m = \<bar>n\<bar>;
          e = excessBits m;
          q = m div 2 ^ e;
          r = m mod 2 ^ e;
          v = (if 2 ^ e < 2 * r \<or> (2 * r = 2 ^ e \<and> odd q) then q + 1 else q) * 2 ^ e
      in if 2 ^ 1024 \<le> v then (if n < 0 then NegInfinity else PosInfinity)
         else Finite (if n < 0 then - v else v))"

text \<open>\<open>x || d\<close>: \<open>NaN\<close> and 0 are falsy.\<close>

definition orDefault :: "number \<Rightarrow> number \<Rightarrow> number" where
  "orDefault x d = (case x of NaN \<Rightarrow> d | Finite n \<Rightarrow> if n = 0 then d else x | _ \<Rightarrow> x)"

text \<open>\<open>x - 1\<close>, \<open>x * y\<close>, \<open>Math.min(x, y)\<close> and \<open>x < y\<close>.\<close>

fun minusOne :: "number \<Rightarrow> number" where
  "minusOne (Finite n) = roundDouble (n - 1)"
| "minusOne x = x"

fun signOf :: "number \<Rightarrow> int" where
  "signOf (Finite n) = sgn n"
| "signOf PosInfinity = 1"
| "signOf NegInfinity = - 1"
| "signOf NaN = 0"

fun multiply :: "number \<Rightarrow> number \<Rightarrow> number" where
  "multiply NaN y = NaN"
| "multiply x NaN = NaN"
| "multiply (Finite a) (Finite b) = roundDouble (a * b)"
| "multiply x y =
     (if signOf x * signOf y = 0 then NaN
      else if 0 < signOf x * signOf y then PosInfinity else NegInfinity)"

fun numLess :: "number \<Rightarrow> number \<Rightarrow> bool" where
  "numLess NaN y = False"
| "numLess x NaN = False"
| "numLess (Finite a) (Finite b) = (a < b)"
| "numLess x PosInfinity = (x \<noteq> PosInfinity)"
| "numLess NegInfinity y = (y \<noteq> NegInfinity)"
| "numLess x y = False"

definition mathMin :: "number \<Rightarrow> number \<Rightarrow> number" where
  "mathMin x y = (if x = NaN \<or> y = NaN then NaN else if numLess y x then y else x)"

text \<open>
  \<open>Math.ceil(a / b)\<close> for a count \<open>a\<close>. On integers it is computed exactly, as the doubles
  of the source do for every count below \<open>2^53\<close>.
\<close>

definition ceilDiv :: "int \<Rightarrow> int \<Rightarrow> int" where
  "ceilDiv a b = - ((- a) div b)"

definition ceilQuotient :: "int \<Rightarrow> number \<Rightarrow> number" where
  "ceilQuotient a y =
     (case y of
        Finite b \<Rightarrow> if b = 0 then (if a = 0 then NaN else PosInfinity) else Finite (ceilDiv a b)
      | NaN \<Rightarrow> NaN
      | _ \<Rightarrow> Finite 0)"

section \<open>The validator\<close>

text \<open>
  The regular expression of \<open>validateEmail\<close> is \<^verbatim>\<open>/^[^\s@]+@[^\s@]+\.[^\s@]+$/\<close>: a
  sequence of tokens between the anchors, each a character class or a literal, taken
  once or (with \<open>+\<close>) one or more times. \<open>RegExp.prototype.test\<close> converts its argument
  with \<open>ToString\<close> and searches for a match; both anchors are present and there is no
  \<open>m\<close> flag, so the match is of the whole string. \<open>matchHere\<close> is the backtracking
  search: a \<open>+\<close> token first tries to take one more character, then to go on.
\<close>

datatype item = WhiteSpace | Lit char

datatype cls = Exactly char | NoneOf "item list"

datatype token = Once cls | OneOrMore cls

fun inItem :: "item \<Rightarrow> char \<Rightarrow> bool" where
  "inItem WhiteSpace c = isWhiteSpace c"
| "inItem (Lit a) c = (c = a)"

fun inClass :: "cls \<Rightarrow> char \<Rightarrow> bool" where
  "inClass (Exactly a) c = (c = a)"
| "inClass (NoneOf its) c = (\<not> list_ex (\<lambda>i. inItem i c) its)"

fun matchHere :: "token list \<Rightarrow> string \<Rightarrow> bool" where
  "matchHere [] s = (s = [])"
| "matchHere (t # ts) [] = False"
| "matchHere (Once k # ts) (c # cs) = (inClass k c \<and> matchHere ts cs)"
| "matchHere (OneOrMore k # ts) (c # cs) =
     (inClass k c \<and> (matchHere (OneOrMore k # ts) cs \<or> matchHere ts cs))"

definition emailRegex :: "token list" where
  "emailRegex =
     [OneOrMore (NoneOf [WhiteSpace, Lit CHR ''@'']), Once (Exactly CHR ''@''),
      OneOrMore (NoneOf [WhiteSpace, Lit CHR ''@'']), Once (Exactly CHR ''.''),
      OneOrMore (NoneOf [WhiteSpace, Lit CHR ''@''])]"

definition validateEmail :: "jsval \<Rightarrow> bool" where
  "validateEmail email = matchHere emailRegex (ToString email)"


section \<open>Documents and the collection\<close>

text \<open>
  A stored document is a list of named BSON values, as the objects of the source are; a
  field that is missing reads as \<open>null\<close>. The collection is the list of its documents in
  insertion order. The unique index on \<open>email\<close> exists or not; it is \<open>createIndex\<close> in
  \<open>connectToDatabase\<close> that creates it. Where it exists, \<open>insertOne\<close> rejects a document
  whose \<open>email\<close> is already stored with the duplicate-key error, code 11000; where it
  does not, the document is stored.
\<close>

datatype bson = BNull | BString string | BObjectId nat | BDate int

type_synonym doc = "(string \<times> bson) list"

datatype js_error = JsError (code: "int option")

definition typeError :: js_error where
  "typeError = JsError None"

definition fieldOf :: "string \<Rightarrow> doc \<Rightarrow> bson" where
  "fieldOf k d = (case map_of d k of None \<Rightarrow> BNull | Some v \<Rightarrow> v)"

definition findOne :: "doc list \<Rightarrow> string \<Rightarrow> doc option" where
  "findOne docs e = find (\<lambda>d. fieldOf ''email'' d = BString e) docs"

definition insertOne :: "bool \<Rightarrow> doc list \<Rightarrow> doc \<Rightarrow> js_error + (nat \<times> doc list)" where
  "insertOne uniqueEmail docs d =
     (if uniqueEmail \<and> list_ex (\<lambda>x. fieldOf ''email'' x = fieldOf ''email'' d) docs
      then Inl (JsError (Some 11000))
      else Inr (length docs, docs @ [(''_id'', BObjectId (length docs)) # d]))"

text \<open>
  \<open>createIndex({email: 1}, {unique: true})\<close> succeeds where the index exists already or
  can be built, which it cannot be over two documents with the same \<open>email\<close>.
\<close>

definition canCreateIndex :: "bool \<Rightarrow> doc list \<Rightarrow> bool" where
  "canCreateIndex uniqueEmail docs = (uniqueEmail \<or> distinct (map (fieldOf ''email'') docs))"

definition countDocuments :: "doc list \<Rightarrow> int" where
  "countDocuments docs = int (length docs)"

text \<open>
  The order of a sort: values of different types are ordered by type (null, string,
  ObjectId, date), values of one type by their own order, strings by code unit. Documents
  that compare equal stay in insertion order.
\<close>

fun typeOrder :: "bson \<Rightarrow> nat" where
  "typeOrder BNull = 1"
| "typeOrder (BString s) = 3"
| "typeOrder (BObjectId n) = 7"
| "typeOrder (BDate t) = 9"

fun bson_le :: "bson \<Rightarrow> bson \<Rightarrow> bool" where
  "bson_le (BString a) (BString b) = (a \<le> b)"
| "bson_le (BObjectId a) (BObjectId b) = (a \<le> b)"
| "bson_le (BDate a) (BDate b) = (a \<le> b)"
| "bson_le a b = (typeOrder a \<le> typeOrder b)"

definition docBefore :: "string \<Rightarrow> int \<Rightarrow> doc \<Rightarrow> doc \<Rightarrow> bool" where
  "docBefore k dir a b =
     (if dir = 1 then bson_le (fieldOf k a) (fieldOf k b) else bson_le (fieldOf k b) (fieldOf k a))"

fun insertSorted :: "('a \<Rightarrow> 'a \<Rightarrow> bool) \<Rightarrow> 'a \<Rightarrow> 'a list \<Rightarrow> 'a list" where
  "insertSorted precedes x [] = [x]"
| "insertSorted precedes x (y # ys) =
     (if precedes x y then x # y # ys else y # insertSorted precedes x ys)"

definition sortDocs :: "string \<Rightarrow> int \<Rightarrow> doc list \<Rightarrow> doc list" where
  "sortDocs k dir docs = foldr (insertSorted (docBefore k dir)) docs []"

definition project :: "string list \<Rightarrow> doc \<Rightarrow> doc" where
  "project ks d = filter (\<lambda>kv. fst kv \<in> set ks) d"

text \<open>
  \<open>find({}).sort(sort).skip(skip).limit(limit).project(fields).toArray()\<close>. The server
  takes \<open>skip\<close> and \<open>limit\<close> as 64-bit integers and rejects what is not one (\<open>NaN\<close>, an
  infinity, a greater number) and a negative \<open>skip\<close>. A limit of 0 is no limit, and a
  negative limit \<open>-n\<close> is the limit \<open>n\<close>. The handler does not look at the error of a
  rejection.
\<close>

definition asInt64 :: "number \<Rightarrow> int option" where
  "asInt64 x =
     (case x of
        Finite n \<Rightarrow> if - (2 ^ 63) < n \<and> n < 2 ^ 63 then Some n else None
      | _ \<Rightarrow> None)"

definition cursor :: "string \<Rightarrow> int \<Rightarrow> int \<Rightarrow> int \<Rightarrow> doc list \<Rightarrow> doc list" where
  "cursor k dir s l docs =
     (let sorted = drop (nat s) (sortDocs k dir docs)
      in if l = 0 then sorted else take (nat \<bar>l\<bar>) sorted)"

definition toArray ::
  "string \<Rightarrow> int \<Rightarrow> number \<Rightarrow> number \<Rightarrow> string list \<Rightarrow> doc list \<Rightarrow> js_error + doc list" where
  "toArray k dir skip lim ks docs =
     (case asInt64 skip of
        None \<Rightarrow> Inl (JsError (Some 51024))
      | Some s \<Rightarrow>
          (case asInt64 lim of
             None \<Rightarrow> Inl (JsError (Some 51024))
           | Some l \<Rightarrow>
               if s < 0 then Inl (JsError (Some 51024))
               else Inr (map (project ks) (cursor k dir s l docs))))"

section \<open>Requests, responses and the environment\<close>

datatype json =
    JNull | JBool bool | JNumber int | JString string | JDate int | JObjectId nat
  | JArray "json list" | JObject "(string \<times> json) list"

record response =
  status :: nat
  body :: json

record post =
  body_email :: jsval
  req_ip :: "string option"
  req_userAgent :: "string option"

text \<open>The query of a listing; a parameter is absent or a string.\<close>

record listq =
  q_page :: "string option"
  q_limit :: "string option"
  q_sortBy :: "string option"
  q_sortOrder :: "string option"

datatype request = Health | Stats | ListEntries listq | AddToWaitlist post | CheckEmail post

datatype connect_outcome = ConnectFails | CreateIndexFails | ConnectOk

text \<open>
  What a request meets outside the program: the clock, how a connection attempt ends,
  whether the first and the second call to the store fail (and with which error), and
  the add-to-waitlist requests of other callers whose \<open>insertOne\<close> reaches the store
  between the two calls of this one (the race window between check and insert).
\<close>

record env =
  now :: int
  connectOutcome :: connect_outcome
  firstCall :: "js_error option"
  racing :: "(post \<times> int) list"
  secondCall :: "js_error option"

text \<open>
  The state: the module variables \<open>db\<close> and \<open>cachedClient\<close> (set or not), and in the
  database whether the unique index exists and the collection.
\<close>

record world =
  db :: bool
  cachedClient :: bool
  uniqueIndex :: bool
  coll :: "doc list"

fun numberJson :: "number \<Rightarrow> json" where
  "numberJson (Finite n) = JNumber n"
| "numberJson x = JNull"

fun bsonJson :: "bson \<Rightarrow> json" where
  "bsonJson BNull = JNull"
| "bsonJson (BString s) = JString s"
| "bsonJson (BObjectId n) = JObjectId n"
| "bsonJson (BDate t) = JDate t"

definition docJson :: "doc \<Rightarrow> json" where
  "docJson d = JObject (map (\<lambda>kv. (fst kv, bsonJson (snd kv))) d)"

fun member :: "json \<Rightarrow> string \<Rightarrow> json" where
  "member (JObject kvs) k = (case map_of kvs k of None \<Rightarrow> JNull | Some v \<Rightarrow> v)"
| "member j k = JNull"

fun keysOf :: "json \<Rightarrow> string list" where
  "keysOf (JObject kvs) = map fst kvs"
| "keysOf j = []"

definition entriesOf :: "response \<Rightarrow> json list" where
  "entriesOf r = (case member (member (body r) ''data'') ''entries'' of JArray es \<Rightarrow> es | _ \<Rightarrow> [])"

section \<open>Connecting (api/index.js and server.js)\<close>

text \<open>
  \<open>connectToDatabase\<close> of api/index.js: with a cached client it returns at once;
  otherwise it connects, sets \<open>cachedClient\<close> and \<open>db\<close>, and only then creates the index.
  An error of either step is thrown again; when it is \<open>createIndex\<close> that failed, \<open>db\<close> is
  set all the same and no later request connects again.
\<close>

definition connectToDatabase :: "connect_outcome \<Rightarrow> world \<Rightarrow> (js_error + unit) \<times> world" where
  "connectToDatabase oc w =
     (if cachedClient w then (Inr (), w)
      else case oc of
             ConnectFails \<Rightarrow> (Inl (JsError None), w)
           | CreateIndexFails \<Rightarrow> (Inl (JsError None), w\<lparr>cachedClient := True, db := True\<rparr>)
           | ConnectOk \<Rightarrow>
               if canCreateIndex (uniqueIndex w) (coll w)
               then (Inr (), w\<lparr>cachedClient := True, db := True, uniqueIndex := True\<rparr>)
               else (Inl (JsError (Some 11000)), w\<lparr>cachedClient := True, db := True\<rparr>))"

text \<open>The middleware: \<open>None\<close> is \<open>next()\<close>, \<open>Some r\<close> the response it sends itself.\<close>

definition ensureDBConnection :: "env \<Rightarrow> world \<Rightarrow> response option \<times> world" where
  "ensureDBConnection ev w =
     (if \<not> db w
      then (case connectToDatabase (connectOutcome ev) w of
              (Inr u, w') \<Rightarrow> (None, w')
            | (Inl error, w') \<Rightarrow>
                (Some \<lparr>status = 500,
                       body = JObject [(''success'', JBool False),
                                       (''message'', JString ''Database connection failed'')]\<rparr>, w'))
      else (None, w))"

text \<open>
  \<open>startServer\<close> of server.js: the server listens only after \<open>connectToDatabase\<close>, which
  ends the process (\<open>None\<close>) when connecting or creating the index fails.
\<close>

definition startServer :: "connect_outcome \<Rightarrow> world \<Rightarrow> world option" where
  "startServer oc w =
     (case oc of
        ConnectOk \<Rightarrow>
          if canCreateIndex (uniqueIndex w) (coll w)
          then Some (w\<lparr>db := True, uniqueIndex := True\<rparr>) else None
      | _ \<Rightarrow> None)"

section \<open>The handlers\<close>

text \<open>
  Each handler is the \<open>try\<close> block of the source, which returns a response or throws, and
  its \<open>catch\<close>. The handlers of api/index.js and of server.js are the same text.
  \<open>db.collection\<close> throws a \<open>TypeError\<close> while \<open>db\<close> is not set, and so does
  \<open>email.trim\<close> on a value that is not a string.
\<close>

definition health :: "env \<Rightarrow> world \<Rightarrow> response \<times> world" where
  "health ev w =
     (\<lparr>status = 200,
       body = JObject [(''status'', JString ''OK''), (''timestamp'', JDate (now ev)),
                       (''database'', JString (if db w then ''Connected'' else ''Disconnected''))]\<rparr>, w)"

definition statsTry :: "env \<Rightarrow> world \<Rightarrow> js_error + response" where
  "statsTry ev w =
     (if \<not> db w then Inl typeError
      else case firstCall ev of
             Some error \<Rightarrow> Inl error
           | None \<Rightarrow>
               (let count = countDocuments (coll w)
                in Inr \<lparr>status = 200,
                        body = JObject [(''success'', JBool True),
                                        (''data'', JObject [(''totalCount'', JNumber count),
                                                            (''timestamp'', JDate (now ev))])]\<rparr>))"

definition stats :: "env \<Rightarrow> world \<Rightarrow> response \<times> world" where
  "stats ev w =
     (case statsTry ev w of
        Inr res \<Rightarrow> (res, w)
      | Inl error \<Rightarrow>
          (\<lparr>status = 500,
            body = JObject [(''success'', JBool False),
                            (''message'', JString ''Failed to get waitlist statistics'')]\<rparr>, w))"

subsection \<open>Listing\<close>

text \<open>
  \<open>parseInt\<close> with no radix: leading white space, a sign, a \<open>0x\<close> prefix for base 16,
  then the longest run of digits, of which it returns the nearest double; with no digit it
  returns \<open>NaN\<close>. (For more than 20 decimal digits the standard lets an implementation
  read the digits after the 20th as zeros; the model rounds the exact integer.)
\<close>

definition digitValue :: "char \<Rightarrow> nat option" where
  "digitValue c =
     (let n = (of_char c :: nat)
      in if 48 \<le> n \<and> n \<le> 57 then Some (n - 48)
         else if 97 \<le> n \<and> n \<le> 122 then Some (n - 87)
         else if 65 \<le> n \<and> n \<le> 90 then Some (n - 55)
         else None)"

definition isRadixDigit :: "nat \<Rightarrow> char \<Rightarrow> bool" where
  "isRadixDigit R c = (case digitValue c of None \<Rightarrow> False | Some v \<Rightarrow> v < R)"

definition digitsValue :: "nat \<Rightarrow> string \<Rightarrow> int" where
  "digitsValue R Z =
     foldl (\<lambda>acc c. acc * int R + (case digitValue c of None \<Rightarrow> 0 | Some v \<Rightarrow> int v)) 0 Z"

definition parseInt :: "string \<Rightarrow> number" where
  "parseInt inputString =
     (let S = dropWhile isWhiteSpace inputString;
          sign = (if take 1 S = ''-'' then - 1 else 1);
          S1 = (if take 1 S = ''-'' \<or> take 1 S = ''+'' then drop 1 S else S);
          hex = (take 2 S1 = ''0x'' \<or> take 2 S1 = ''0X'');
          R = (if hex then 16 else 10);
          S2 = (if hex then drop 2 S1 else S1);
          Z = takeWhile (isRadixDigit R) S2
      in if Z = [] then NaN else roundDouble (sign * digitsValue R Z))"

text \<open>\<open>parseInt(req.query.x)\<close>; of an absent parameter \<open>parseInt\<close> reads \<open>undefined\<close>.\<close>

definition parseQuery :: "string option \<Rightarrow> number" where
  "parseQuery x = parseInt (case x of None \<Rightarrow> ''undefined'' | Some s \<Rightarrow> s)"

definition pageOf :: "listq \<Rightarrow> number" where
  "pageOf q = orDefault (parseQuery (q_page q)) (Finite 1)"

definition limitOf :: "listq \<Rightarrow> number" where
  "limitOf q = orDefault (parseQuery (q_limit q)) (Finite 50)"

definition sortByOf :: "listq \<Rightarrow> string" where
  "sortByOf q = (case q_sortBy q of None \<Rightarrow> ''createdAt'' | Some s \<Rightarrow> if s = [] then ''createdAt'' else s)"

definition sortOrderOf :: "listq \<Rightarrow> int" where
  "sortOrderOf q = (if q_sortOrder q = Some ''asc'' then 1 else - 1)"

definition listTry :: "env \<Rightarrow> listq \<Rightarrow> world \<Rightarrow> js_error + response" where
  "listTry ev q w =
     (if \<not> db w then Inl typeError
      else
        let page = pageOf q;
            limit = limitOf q;
            sortBy = sortByOf q;
            sortOrder = sortOrderOf q;
            maxLimit = mathMin limit (Finite 100);
            skip = multiply (minusOne page) maxLimit
        in case firstCall ev of
             Some error \<Rightarrow> Inl error
           | None \<Rightarrow>
               (let totalCount = countDocuments (coll w);
                    totalPages = ceilQuotient totalCount maxLimit
                in case secondCall ev of
                     Some error \<Rightarrow> Inl error
                   | None \<Rightarrow>
                       (case toArray sortBy sortOrder skip maxLimit
                               [''email'', ''createdAt'', ''source'', ''_id''] (coll w) of
                          Inl error \<Rightarrow> Inl error
                        | Inr entries \<Rightarrow>
                            Inr \<lparr>status = 200,
                                 body = JObject
                                   [(''success'', JBool True),
                                    (''data'', JObject
                                       [(''entries'', JArray (map docJson entries)),
                                        (''pagination'', JObject
                                           [(''currentPage'', numberJson page),
                                            (''totalPages'', numberJson totalPages),
                                            (''totalCount'', JNumber totalCount),
                                            (''hasNextPage'', JBool (numLess page totalPages)),
                                            (''hasPrevPage'', JBool (numLess (Finite 1) page)),
                                            (''limit'', numberJson maxLimit)]),
                                        (''sorting'', JObject
                                           [(''sortBy'', JString sortBy),
                                            (''sortOrder'',
                                             JString (if sortOrder = 1 then ''asc'' else ''desc''))])])]\<rparr>)))"

definition listEntries :: "env \<Rightarrow> listq \<Rightarrow> world \<Rightarrow> response \<times> world" where
  "listEntries ev q w =
     (case listTry ev q w of
        Inr res \<Rightarrow> (res, w)
      | Inl error \<Rightarrow>
          (\<lparr>status = 500,
            body = JObject [(''success'', JBool False),
                            (''message'', JString ''Failed to get waitlist entries'')]\<rparr>, w))"

subsection \<open>Adding and checking\<close>

definition optString :: "string option \<Rightarrow> bson" where
  "optString x = (case x of None \<Rightarrow> BNull | Some s \<Rightarrow> BString s)"

definition newEntry :: "string \<Rightarrow> int \<Rightarrow> post \<Rightarrow> doc" where
  "newEntry sanitizedEmail t rq =
     [(''email'', BString sanitizedEmail), (''createdAt'', BDate t),
      (''source'', BString ''landing-page''), (''ipAddress'', optString (req_ip rq)),
      (''userAgent'', optString (req_userAgent rq))]"

text \<open>
  The \<open>insertOne\<close> of another caller of the same handler, whose address passed the
  validation; with the unique index the store refuses it when the address is already
  there.
\<close>

definition concurrentInsert :: "bool \<Rightarrow> doc list \<Rightarrow> post \<times> int \<Rightarrow> doc list" where
  "concurrentInsert uniqueEmail docs r =
     (case body_email (fst r) of
        Str e \<Rightarrow>
          if validateEmail (Str e)
          then (case insertOne uniqueEmail docs (newEntry (toLowerCase (trim e)) (snd r) (fst r)) of
                  Inr res \<Rightarrow> snd res
                | Inl error \<Rightarrow> docs)
          else docs
      | _ \<Rightarrow> docs)"

definition addTry :: "env \<Rightarrow> post \<Rightarrow> world \<Rightarrow> (js_error + response) \<times> world" where
  "addTry ev rq w =
     (if \<not> validateEmail (body_email rq)
      then (Inr \<lparr>status = 400,
                 body = JObject [(''success'', JBool False),
                                 (''message'', JString ''Please provide a valid email address'')]\<rparr>, w)
      else case body_email rq of
             Str email \<Rightarrow>
               (let sanitizedEmail = toLowerCase (trim email)
                in if \<not> db w then (Inl typeError, w)
                   else case firstCall ev of
                          Some error \<Rightarrow> (Inl error, w)
                        | None \<Rightarrow>
                            (case findOne (coll w) sanitizedEmail of
                               Some existingUser \<Rightarrow>
                                 (Inr \<lparr>status = 409,
                                       body = JObject
                                         [(''success'', JBool False),
                                          (''message'', JString ''This email is already on our waitlist!'')]\<rparr>, w)
                             | None \<Rightarrow>
                                 (let entry = newEntry sanitizedEmail (now ev) rq;
                                      w1 = w\<lparr>coll := foldl (concurrentInsert (uniqueIndex w)) (coll w)
                                                         (racing ev)\<rparr>
                                  in case secondCall ev of
                                       Some error \<Rightarrow> (Inl error, w1)
                                     | None \<Rightarrow>
                                         (case insertOne (uniqueIndex w1) (coll w1) entry of
                                            Inl error \<Rightarrow> (Inl error, w1)
                                          | Inr result \<Rightarrow>
                                              (Inr \<lparr>status = 201,
                                                    body = JObject
                                                      [(''success'', JBool True),
                                                       (''message'', JString ''Successfully added to waitlist''),
                                                       (''data'', JObject
                                                          [(''id'', JObjectId (fst result)),
                                                           (''email'', JString sanitizedEmail)])]\<rparr>,
                                               w1\<lparr>coll := snd result\<rparr>)))))
           | _ \<Rightarrow> (Inl typeError, w))"

definition addToWaitlist :: "env \<Rightarrow> post \<Rightarrow> world \<Rightarrow> response \<times> world" where
  "addToWaitlist ev rq w =
     (case addTry ev rq w of
        (Inr res, w') \<Rightarrow> (res, w')
      | (Inl error, w') \<Rightarrow>
          (if code error = Some 11000
           then \<lparr>status = 409,
                 body = JObject [(''success'', JBool False),
                                 (''message'', JString ''This email is already on our waitlist!'')]\<rparr>
           else \<lparr>status = 500,
                 body = JObject [(''success'', JBool False),
                                 (''message'', JString ''Internal server error. Please try again later.'')]\<rparr>,
           w'))"

definition checkTry :: "env \<Rightarrow> post \<Rightarrow> world \<Rightarrow> js_error + response" where
  "checkTry ev rq w =
     (if \<not> validateEmail (body_email rq)
      then Inr \<lparr>status = 400,
                body = JObject [(''success'', JBool False),
                                (''message'', JString ''Invalid email format'')]\<rparr>
      else if \<not> db w then Inl typeError
      else case body_email rq of
             Str email \<Rightarrow>
               (case firstCall ev of
                  Some error \<Rightarrow> Inl error
                | None \<Rightarrow>
                    (let exists = findOne (coll w) (toLowerCase (trim email))
                     in Inr \<lparr>status = 200,
                             body = JObject [(''success'', JBool True),
                                             (''exists'', JBool (exists \<noteq> None))]\<rparr>))
           | _ \<Rightarrow> Inl typeError)"

definition checkEmail :: "env \<Rightarrow> post \<Rightarrow> world \<Rightarrow> response \<times> world" where
  "checkEmail ev rq w =
     (case checkTry ev rq w of
        Inr res \<Rightarrow> (res, w)
      | Inl error \<Rightarrow>
          (\<lparr>status = 500,
            body = JObject [(''success'', JBool False),
                            (''message'', JString ''Failed to check email'')]\<rparr>, w))"

section \<open>The two entry points\<close>

text \<open>
  api/index.js puts \<open>ensureDBConnection\<close> before every route. server.js has no
  middleware and no listing route, whose requests reach the 404 handler.
\<close>

definition api_index :: "env \<Rightarrow> request \<Rightarrow> world \<Rightarrow> response \<times> world" where
  "api_index ev r w =
     (case ensureDBConnection ev w of
        (Some res, w') \<Rightarrow> (res, w')
      | (None, w') \<Rightarrow>
          (case r of
             Health \<Rightarrow> health ev w'
           | Stats \<Rightarrow> stats ev w'
           | ListEntries q \<Rightarrow> listEntries ev q w'
           | AddToWaitlist rq \<Rightarrow> addToWaitlist ev rq w'
           | CheckEmail rq \<Rightarrow> checkEmail ev rq w'))"

definition server :: "env \<Rightarrow> request \<Rightarrow> world \<Rightarrow> response \<times> world" where
  "server ev r w =
     (case r of
        Health \<Rightarrow> health ev w
      | Stats \<Rightarrow> stats ev w
      | ListEntries q \<Rightarrow>
          (\<lparr>status = 404,
            body = JObject [(''success'', JBool False),
                            (''message'', JString ''API endpoint not found'')]\<rparr>, w)
      | AddToWaitlist rq \<Rightarrow> addToWaitlist ev rq w
      | CheckEmail rq \<Rightarrow> checkEmail ev rq w)"

text \<open>
  The states the system can be in: a new process on an empty collection without the
  index, and from any state a request to either entry point in any environment, the
  start of the server, or a new process on the database as it is.
\<close>

inductive reachable :: "world \<Rightarrow> bool" where
  fresh: "reachable \<lparr>db = False, cachedClient = False, uniqueIndex = False, coll = []\<rparr>"
| by_api: "reachable w \<Longrightarrow> reachable (snd (api_index ev r w))"
| by_server: "reachable w \<Longrightarrow> reachable (snd (server ev r w))"
| by_start: "reachable w \<Longrightarrow> startServer oc w = Some w' \<Longrightarrow> reachable w'"
| by_restart: "reachable w \<Longrightarrow> reachable (w\<lparr>db := False, cachedClient := False\<rparr>)"

section \<open>Properties stated by the specification\<close>

definition normalizedEmail :: "doc \<Rightarrow> string option" where
  "normalizedEmail d =
     (case fieldOf ''email'' d of BString e \<Rightarrow> Some (toLowerCase (trim e)) | _ \<Rightarrow> None)"

definition storedNormalized :: "doc \<Rightarrow> bool" where
  "storedNormalized d =
     (case fieldOf ''email'' d of BString e \<Rightarrow> toLowerCase (trim e) = e | _ \<Rightarrow> False)"

definition storeInv :: "doc list \<Rightarrow> bool" where
  "storeInv docs = (distinct (map normalizedEmail docs) \<and> list_all storedNormalized docs)"

text \<open>
  The shape the specification gives for a valid address, in its words: one \<open>@\<close> with a
  local part before it, no white space, and a dot in the domain.
\<close>

definition localPart :: "string \<Rightarrow> string" where
  "localPart s = takeWhile (\<lambda>c. c \<noteq> CHR ''@'') s"

definition domainPart :: "string \<Rightarrow> string" where
  "domainPart s = drop (Suc (length (localPart s))) s"

definition spec_isValidEmail :: "string \<Rightarrow> bool" where
  "spec_isValidEmail s =
     (CHR ''@'' \<in> set s \<and> localPart s \<noteq> [] \<and> \<not> list_ex isWhiteSpace s
      \<and> CHR ''@'' \<notin> set (domainPart s) \<and> CHR ''.'' \<in> set (domainPart s))"

text \<open>The same with the dot inside the domain: neither its first nor its last character.\<close>

definition emailShape :: "string \<Rightarrow> bool" where
  "emailShape s =
     (CHR ''@'' \<in> set s \<and> localPart s \<noteq> [] \<and> \<not> list_ex isWhiteSpace s
      \<and> CHR ''@'' \<notin> set (domainPart s) \<and> CHR ''.'' \<in> set (butlast (tl (domainPart s))))"

definition okChar :: "char \<Rightarrow> bool" where
  "okChar c = (\<not> isWhiteSpace c \<and> c \<noteq> CHR ''@'')"

text \<open>
  The two ways a duplicate comes to light in \<open>addToWaitlist\<close>: the check before the insert
  finds the address, or the check finds nothing and the unique index refuses the insert
  because another caller's insert came in between.
\<close>

definition foundByPreCheck :: "env \<Rightarrow> post \<Rightarrow> world \<Rightarrow> bool" where
  "foundByPreCheck ev rq w =
     (case body_email rq of
        Str e \<Rightarrow> validateEmail (Str e) \<and> db w \<and> firstCall ev = None
                  \<and> findOne (coll w) (toLowerCase (trim e)) \<noteq> None
      | _ \<Rightarrow> False)"

definition raisedByConstraint :: "env \<Rightarrow> post \<Rightarrow> world \<Rightarrow> bool" where
  "raisedByConstraint ev rq w =
     (case body_email rq of
        Str e \<Rightarrow> validateEmail (Str e) \<and> db w \<and> firstCall ev = None
                  \<and> findOne (coll w) (toLowerCase (trim e)) = None \<and> secondCall ev = None
                  \<and> insertOne (uniqueIndex w)
                       (foldl (concurrentInsert (uniqueIndex w)) (coll w) (racing ev))
                       (newEntry (toLowerCase (trim e)) (now ev) rq) = Inl (JsError (Some 11000))
      | _ \<Rightarrow> False)"

definition listedFields :: "string list" where
  "listedFields = [''_id'', ''email'', ''createdAt'', ''source'']"



definition sortingEcho :: "response \<Rightarrow> json" where
  "sortingEcho r = member (member (member (body r) ''data'') ''sorting'') ''sortOrder''"

definition limitEcho :: "response \<Rightarrow> json" where
  "limitEcho r = member (member (member (body r) ''data'') ''pagination'') ''limit''"

text \<open>Concrete requests, environments and states used to evaluate the model.\<close>

definition quiet :: env where
  "quiet = \<lparr>now = 1700000000000, connectOutcome = ConnectOk, firstCall = None, racing = [],
            secondCall = None\<rparr>"

definition unreachable :: env where
  "unreachable =
     quiet\<lparr>connectOutcome := ConnectFails, firstCall := Some (JsError None),
           secondCall := Some (JsError None)\<rparr>"

definition coldStart :: world where
  "coldStart = \<lparr>db = False, cachedClient = False, uniqueIndex = False, coll = []\<rparr>"

definition connectedEmpty :: world where
  "connectedEmpty = \<lparr>db = True, cachedClient = True, uniqueIndex = True, coll = []\<rparr>"

definition postOf :: "string \<Rightarrow> post" where
  "postOf e = \<lparr>body_email = Str e, req_ip = Some ''203.0.113.7'', req_userAgent = Some ''curl/8.0''\<rparr>"

definition noEmail :: post where
  "noEmail = \<lparr>body_email = Undefined, req_ip = None, req_userAgent = None\<rparr>"

definition queryOf :: "string option \<Rightarrow> string option \<Rightarrow> string option \<Rightarrow> string option \<Rightarrow> listq" where
  "queryOf p l sb so = \<lparr>q_page = p, q_limit = l, q_sortBy = sb, q_sortOrder = so\<rparr>"

text \<open>The collection after three addresses were added, in this order.\<close>

definition threeAdded :: world where
  "threeAdded =
     snd (addToWaitlist quiet (postOf ''carol@example.com'')
       (snd (addToWaitlist quiet (postOf ''alice@example.com'')
          (snd (addToWaitlist quiet (postOf ''Bob@Example.com'') connectedEmpty)))))"

text \<open>
  A new process on a new database whose first request finds the store but cannot create
  the index, and then two callers adding the same address at the same time.
\<close>

definition indexRefused :: env where
  "indexRefused = quiet\<lparr>connectOutcome := CreateIndexFails\<rparr>"

definition withoutIndex :: world where
  "withoutIndex = snd (api_index indexRefused Health coldStart)"

definition raced :: env where
  "raced = quiet\<lparr>racing := [(postOf ''a@b.com'', 1700000000001)]\<rparr>"

text \<open>A collection of 101 entries, with the index.\<close>

definition storedEntry :: "nat \<Rightarrow> doc" where
  "storedEntry i =
     (''_id'', BObjectId i)
       # newEntry (''user'' @ replicate i CHR ''x'' @ ''@example.com'') 1700000000000 (postOf [])"

definition crowded :: world where
  "crowded = \<lparr>db = True, cachedClient = True, uniqueIndex = True, coll = map storedEntry [0..<101]\<rparr>"

section \<open>The validator accepts exactly the shape with an inner dot\<close>

lemma inClass_okChar: "inClass (NoneOf [WhiteSpace, Lit CHR ''@'']) = okChar"
  by (rule ext) (simp add: okChar_def)

lemma matchHere_Once:
  "matchHere (Once k # ts) s = (\<exists>c rest. s = c # rest \<and> inClass k c \<and> matchHere ts rest)"
  by (cases s) auto

lemma matchHere_OneOrMore:
  "matchHere (OneOrMore k # ts) s =
     (\<exists>pre rest. s = pre @ rest \<and> pre \<noteq> [] \<and> list_all (inClass k) pre \<and> matchHere ts rest)"
proof (induction s)
  case Nil
  show ?case by simp
next
  case (Cons c cs)
  show ?case
  proof
    assume m: "matchHere (OneOrMore k # ts) (c # cs)"
    then have c: "inClass k c" by simp
    from m consider "matchHere (OneOrMore k # ts) cs" | "matchHere ts cs" by auto
    then show "\<exists>pre rest. c # cs = pre @ rest \<and> pre \<noteq> [] \<and> list_all (inClass k) pre \<and> matchHere ts rest"
    proof cases
      case 1
      with Cons.IH obtain pre rest
        where "cs = pre @ rest" "list_all (inClass k) pre" "matchHere ts rest"
        by auto
      with c have "c # cs = (c # pre) @ rest \<and> c # pre \<noteq> []
          \<and> list_all (inClass k) (c # pre) \<and> matchHere ts rest"
        by simp
      then show ?thesis by blast
    next
      case 2
      with c have "c # cs = [c] @ cs \<and> [c] \<noteq> [] \<and> list_all (inClass k) [c] \<and> matchHere ts cs"
        by simp
      then show ?thesis by blast
    qed
  next
    assume "\<exists>pre rest. c # cs = pre @ rest \<and> pre \<noteq> [] \<and> list_all (inClass k) pre \<and> matchHere ts rest"
    then obtain pre rest
      where p: "c # cs = pre @ rest" "pre \<noteq> []" "list_all (inClass k) pre" "matchHere ts rest"
      by blast
    then obtain p' where pre: "pre = c # p'" by (cases pre) auto
    with p have c: "inClass k c" and cs: "cs = p' @ rest" and all: "list_all (inClass k) p'"
      by auto
    show "matchHere (OneOrMore k # ts) (c # cs)"
    proof (cases p')
      case Nil
      with cs p c show ?thesis by simp
    next
      case (Cons a as)
      with cs all p have "matchHere (OneOrMore k # ts) cs"
        using Cons.IH by blast
      with c show ?thesis by simp
    qed
  qed
qed

lemma match_tld:
  "matchHere [OneOrMore (NoneOf [WhiteSpace, Lit CHR ''@''])] r = (r \<noteq> [] \<and> list_all okChar r)"
  by (auto simp: matchHere_OneOrMore inClass_okChar simp del: inClass.simps)

lemma match_dot_tld:
  "matchHere [Once (Exactly CHR ''.''), OneOrMore (NoneOf [WhiteSpace, Lit CHR ''@''])] r
     = (\<exists>d2. r = CHR ''.'' # d2 \<and> d2 \<noteq> [] \<and> list_all okChar d2)"
  by (auto simp: matchHere_Once match_tld simp del: matchHere.simps)

lemma match_domain:
  "matchHere [OneOrMore (NoneOf [WhiteSpace, Lit CHR ''@'']), Once (Exactly CHR ''.''),
              OneOrMore (NoneOf [WhiteSpace, Lit CHR ''@''])] r
     = (\<exists>d1 d2. r = d1 @ CHR ''.'' # d2 \<and> d1 \<noteq> [] \<and> d2 \<noteq> []
          \<and> list_all okChar d1 \<and> list_all okChar d2)"
  by (simp add: matchHere_OneOrMore[of _ "_ # _"] match_dot_tld inClass_okChar
        del: matchHere.simps inClass.simps) blast

lemma match_at_domain:
  "matchHere [Once (Exactly CHR ''@''), OneOrMore (NoneOf [WhiteSpace, Lit CHR ''@'']),
              Once (Exactly CHR ''.''), OneOrMore (NoneOf [WhiteSpace, Lit CHR ''@''])] r
     = (\<exists>d1 d2. r = CHR ''@'' # d1 @ CHR ''.'' # d2 \<and> d1 \<noteq> [] \<and> d2 \<noteq> []
          \<and> list_all okChar d1 \<and> list_all okChar d2)"
  by (simp add: matchHere_Once match_domain del: matchHere.simps) blast

lemma matchHere_emailRegex:
  "matchHere emailRegex s =
     (\<exists>l d1 d2. s = l @ CHR ''@'' # d1 @ CHR ''.'' # d2 \<and> l \<noteq> [] \<and> d1 \<noteq> [] \<and> d2 \<noteq> []
        \<and> list_all okChar l \<and> list_all okChar d1 \<and> list_all okChar d2)"
  unfolding emailRegex_def
  by (simp add: matchHere_OneOrMore[of _ "_ # _"] match_at_domain inClass_okChar
        del: matchHere.simps inClass.simps) blast

lemma parts_of_address:
  assumes "list_all okChar l"
  shows "localPart (l @ CHR ''@'' # d) = l" and "domainPart (l @ CHR ''@'' # d) = d"
proof -
  from assms have "\<forall>c\<in>set l. c \<noteq> CHR ''@''" by (auto simp: list_all_iff okChar_def)
  then show l: "localPart (l @ CHR ''@'' # d) = l"
    by (simp add: localPart_def takeWhile_append2)
  show "domainPart (l @ CHR ''@'' # d) = d"
    unfolding domainPart_def l by simp
qed

lemma address_of_parts:
  assumes "CHR ''@'' \<in> set s"
  shows "s = localPart s @ CHR ''@'' # domainPart s"
  using assms
proof (induction s)
  case Nil
  then show ?case by simp
next
  case (Cons c cs)
  show ?case
  proof (cases "c = CHR ''@''")
    case True
    then show ?thesis by (simp add: localPart_def domainPart_def)
  next
    case False
    with Cons.prems have "CHR ''@'' \<in> set cs" by simp
    from Cons.IH[OF this] False show ?thesis
      by (simp add: localPart_def domainPart_def)
  qed
qed

lemma okChar_parts:
  assumes "\<not> list_ex isWhiteSpace s" and "CHR ''@'' \<notin> set (domainPart s)"
  shows "list_all okChar (localPart s)" and "list_all okChar (domainPart s)"
proof -
  have "\<forall>c\<in>set (localPart s). c \<noteq> CHR ''@'' \<and> c \<in> set s"
    unfolding localPart_def by (auto dest: set_takeWhileD)
  with assms(1) show "list_all okChar (localPart s)"
    by (auto simp: list_all_iff list_ex_iff okChar_def)
  have "\<forall>c\<in>set (domainPart s). c \<in> set s"
    unfolding domainPart_def by (auto dest: in_set_dropD)
  with assms show "list_all okChar (domainPart s)"
    by (auto simp: list_all_iff list_ex_iff okChar_def)
qed

lemma inner_dot:
  "(CHR ''.'' \<in> set (butlast (tl d))) = (\<exists>d1 d2. d = d1 @ CHR ''.'' # d2 \<and> d1 \<noteq> [] \<and> d2 \<noteq> [])"
proof
  assume "CHR ''.'' \<in> set (butlast (tl d))"
  then obtain a b where ab: "butlast (tl d) = a @ CHR ''.'' # b" by (auto dest: split_list)
  then have tlne: "tl d \<noteq> []" by auto
  then obtain x where D: "d = x # tl d" by (cases d) auto
  from tlne have "tl d = butlast (tl d) @ [last (tl d)]" by simp
  with ab have "tl d = a @ CHR ''.'' # (b @ [last (tl d)])" by simp
  with D have "d = (x # a) @ CHR ''.'' # (b @ [last (tl d)])" by simp
  then show "\<exists>d1 d2. d = d1 @ CHR ''.'' # d2 \<and> d1 \<noteq> [] \<and> d2 \<noteq> []" by blast
next
  assume "\<exists>d1 d2. d = d1 @ CHR ''.'' # d2 \<and> d1 \<noteq> [] \<and> d2 \<noteq> []"
  then obtain d1 d2 where d: "d = d1 @ CHR ''.'' # d2" and ne: "d1 \<noteq> []" "d2 \<noteq> []" by blast
  from ne have "butlast (tl d) = tl d1 @ CHR ''.'' # butlast d2"
    unfolding d by (cases d1) (simp_all add: butlast_append)
  then show "CHR ''.'' \<in> set (butlast (tl d))" by simp
qed

lemma at_dot_not_space: "\<not> isWhiteSpace CHR ''@''" "\<not> isWhiteSpace CHR ''.''"
  by (simp_all add: isWhiteSpace_def)

lemma no_space_in_address:
  "list_all okChar l \<Longrightarrow> list_all okChar d1 \<Longrightarrow> list_all okChar d2
     \<Longrightarrow> \<not> list_ex isWhiteSpace (l @ CHR ''@'' # d1 @ CHR ''.'' # d2)"
  by (simp add: list_all_iff list_ex_iff okChar_def at_dot_not_space ball_Un)

lemma validateEmail_emailShape: "validateEmail (Str s) = emailShape s"
proof
  assume "validateEmail (Str s)"
  then obtain l d1 d2 where s: "s = l @ CHR ''@'' # d1 @ CHR ''.'' # d2"
    and ne: "l \<noteq> []" "d1 \<noteq> []" "d2 \<noteq> []"
    and ok: "list_all okChar l" "list_all okChar d1" "list_all okChar d2"
    by (auto simp: validateEmail_def matchHere_emailRegex)
  have lp: "localPart s = l" and dp: "domainPart s = d1 @ CHR ''.'' # d2"
    unfolding s using parts_of_address[OF ok(1)] by simp_all
  have "\<exists>a b. domainPart s = a @ CHR ''.'' # b \<and> a \<noteq> [] \<and> b \<noteq> []"
    by (rule exI[of _ d1], rule exI[of _ d2]) (intro conjI dp ne)
  then have dot: "CHR ''.'' \<in> set (butlast (tl (domainPart s)))"
    by (simp only: inner_dot)
  from ok have ws: "\<not> list_ex isWhiteSpace s"
    unfolding s by (rule no_space_in_address)
  from ok have at: "CHR ''@'' \<notin> set (domainPart s)"
    unfolding dp by (auto simp: list_all_iff okChar_def)
  have "CHR ''@'' \<in> set s" unfolding s by simp
  with lp ne dot ws at show "emailShape s"
    unfolding emailShape_def by simp
next
  assume e: "emailShape s"
  then have at: "CHR ''@'' \<in> set s" and l: "localPart s \<noteq> []"
    and ws: "\<not> list_ex isWhiteSpace s" and d: "CHR ''@'' \<notin> set (domainPart s)"
    and dot: "CHR ''.'' \<in> set (butlast (tl (domainPart s)))"
    by (simp_all add: emailShape_def)
  from dot have "\<exists>d1 d2. domainPart s = d1 @ CHR ''.'' # d2 \<and> d1 \<noteq> [] \<and> d2 \<noteq> []"
    by (simp only: inner_dot)
  then obtain d1 d2 where D: "domainPart s = d1 @ CHR ''.'' # d2" and ne: "d1 \<noteq> []" "d2 \<noteq> []"
    by (elim exE conjE)
  have s: "s = localPart s @ CHR ''@'' # d1 @ CHR ''.'' # d2"
    using address_of_parts[OF at] unfolding D .
  from okChar_parts[OF ws d] have okl: "list_all okChar (localPart s)"
    and "list_all okChar (d1 @ CHR ''.'' # d2)" unfolding D by simp_all
  then have ok12: "list_all okChar d1" "list_all okChar d2" by simp_all
  have "\<exists>l d1' d2'. s = l @ CHR ''@'' # d1' @ CHR ''.'' # d2' \<and> l \<noteq> [] \<and> d1' \<noteq> [] \<and> d2' \<noteq> []
        \<and> list_all okChar l \<and> list_all okChar d1' \<and> list_all okChar d2'"
    by (rule exI[of _ "localPart s"], rule exI[of _ d1], rule exI[of _ d2])
      (intro conjI s l ne okl ok12)
  then show "validateEmail (Str s)"
    by (simp add: validateEmail_def matchHere_emailRegex)
qed

text \<open>
  C4 (as the specification states it: valid if and only if one \<open>@\<close>, no white space and
  a dot anywhere in the domain) fails: \<open>a@.com\<close> has that shape and is rejected.
\<close>

theorem isValidEmail_spec_shape_counterexample:
  "spec_isValidEmail ''a@.com'' \<and> \<not> validateEmail (Str ''a@.com'')"
  by (simp add: spec_isValidEmail_def localPart_def domainPart_def isWhiteSpace_def
        validateEmail_def emailRegex_def)

text \<open>
  C4, amended: for every string \<open>s\<close>, \<open>validateEmail\<close> returns true if and only if \<open>s\<close> is
  a non-empty local part, one \<open>@\<close> and a domain, with no white space anywhere, no \<open>@\<close> in
  the local part or the domain, and a dot in the domain that is neither its first nor
  its last character.
\<close>

theorem validateEmail_iff_shape: "validateEmail (Str s) \<longleftrightarrow> emailShape s"
  by (rule validateEmail_emailShape)

theorem validateEmail_iff_shape_witness:
  "validateEmail (Str ''a@b.com'') \<and> emailShape ''a@b.com''"
  using validateEmail_iff_shape[of "''a@b.com''"]
  by (simp add: emailShape_def localPart_def domainPart_def isWhiteSpace_def)

section \<open>The stored emails: normalized and, with the index, distinct\<close>

lemma isWhiteSpace_code:
  "isWhiteSpace c = (of_char c \<in> {9, 10, 11, 12, 13, 32, 160 :: nat})"
proof -
  have e: "(c = d) = ((of_char c :: nat) = of_char d)" for d by simp
  show ?thesis
    unfolding isWhiteSpace_def
    by (simp only: e[of "CHR 0x09"] e[of "CHR 0x0A"] e[of "CHR 0x0B"] e[of "CHR 0x0C"] e[of "CHR 0x0D"] e[of "CHR 0x20"] e[of "CHR 0xA0"]) simp
qed

lemma of_char_toLowerChar:
  "(of_char (toLowerChar c) :: nat) =
     (let n = of_char c in if (65 \<le> n \<and> n \<le> 90) \<or> (192 \<le> n \<and> n \<le> 222 \<and> n \<noteq> 215) then n + 32 else n)"
  by (auto simp: toLowerChar_def Let_def)

lemma isWhiteSpace_toLowerChar: "isWhiteSpace (toLowerChar c) = isWhiteSpace c"
  unfolding isWhiteSpace_code of_char_toLowerChar by (auto simp: Let_def)

lemma toLowerChar_idem: "toLowerChar (toLowerChar c) = toLowerChar c"
proof -
  have "(of_char (toLowerChar (toLowerChar c)) :: nat) = of_char (toLowerChar c)"
    unfolding of_char_toLowerChar[of "toLowerChar c"] unfolding of_char_toLowerChar[of c] by (auto simp: Let_def)
  then show ?thesis by simp
qed

lemma trim_no_space: "\<not> list_ex isWhiteSpace s \<Longrightarrow> trim s = s"
proof -
  assume a: "\<not> list_ex isWhiteSpace s"
  then have "dropWhile isWhiteSpace s = s"
    by (cases s) (auto simp: list_ex_iff)
  moreover from a have "dropWhile isWhiteSpace (rev s) = rev s"
    by (cases "rev s") (auto simp: list_ex_iff dest: arg_cong[where f=set])
  ultimately show ?thesis by (simp add: trim_def)
qed

lemma validated_no_space: "validateEmail (Str e) \<Longrightarrow> \<not> list_ex isWhiteSpace e"
  by (simp add: validateEmail_emailShape emailShape_def)

lemma sanitized_is_normalized:
  assumes "validateEmail (Str e)"
  shows "toLowerCase (trim (toLowerCase (trim e))) = toLowerCase (trim e)"
proof -
  from assms have ns: "\<not> list_ex isWhiteSpace e" by (rule validated_no_space)
  then have t: "trim e = e" by (rule trim_no_space)
  from ns have "\<not> list_ex isWhiteSpace (toLowerCase e)"
    by (simp add: toLowerCase_def list_ex_iff isWhiteSpace_toLowerChar)
  then have "trim (toLowerCase e) = toLowerCase e" by (rule trim_no_space)
  then show ?thesis
    by (simp add: t) (simp add: toLowerCase_def toLowerChar_idem)
qed


lemma trim_after_validation: "validateEmail (Str e) \<Longrightarrow> trim e = e"
  by (rule trim_no_space[OF validated_no_space])

lemma fieldOf_newEntry: "fieldOf ''email'' (newEntry n t rq) = BString n"
  by (simp add: fieldOf_def newEntry_def)

lemma fieldOf_stored: "fieldOf ''email'' ((''_id'', i) # newEntry n t rq) = BString n"
  by (simp add: fieldOf_def newEntry_def)

lemma insertOne_storeInv:
  assumes inv: "storeInv docs" and n: "toLowerCase (trim n) = n"
    and ins: "insertOne True docs (newEntry n t rq) = Inr res"
  shows "storeInv (snd res)"
proof -
  from ins have fresh: "\<not> list_ex (\<lambda>x. fieldOf ''email'' x = BString n) docs"
    and res: "snd res = docs @ [(''_id'', BObjectId (length docs)) # newEntry n t rq]"
    by (auto simp: insertOne_def fieldOf_newEntry split: if_splits)
  let ?d = "(''_id'', BObjectId (length docs)) # newEntry n t rq"
  have nd: "normalizedEmail ?d = Some n" and sd: "storedNormalized ?d"
    by (simp_all add: normalizedEmail_def storedNormalized_def fieldOf_stored n)
  have "Some n \<notin> set (map normalizedEmail docs)"
  proof
    assume "Some n \<in> set (map normalizedEmail docs)"
    then obtain x where x: "x \<in> set docs" and eq: "normalizedEmail x = Some n" by auto
    from inv x have "storedNormalized x" by (simp add: storeInv_def list_all_iff)
    with eq have "fieldOf ''email'' x = BString n"
      by (auto simp: normalizedEmail_def storedNormalized_def split: bson.splits)
    with fresh x show False by (auto simp: list_ex_iff)
  qed
  with inv nd sd show ?thesis
    unfolding res storeInv_def by simp
qed

lemma concurrentInsert_storeInv:
  assumes "storeInv docs"
  shows "storeInv (concurrentInsert True docs r)"
proof (cases "body_email (fst r)")
  case (Str e)
  show ?thesis
  proof (cases "validateEmail (Str e)")
    case True
    show ?thesis
    proof (cases "insertOne True docs (newEntry (toLowerCase (trim e)) (snd r) (fst r))")
      case (Inl a)
      with Str True assms show ?thesis by (simp add: concurrentInsert_def)
    next
      case (Inr res)
      from insertOne_storeInv[OF assms sanitized_is_normalized[OF True] Inr]
      show ?thesis using Str True Inr by (simp add: concurrentInsert_def)
    qed
  next
    case False
    with Str assms show ?thesis by (simp add: concurrentInsert_def)
  qed
qed (use assms in \<open>simp_all add: concurrentInsert_def\<close>)

lemma racing_storeInv: "storeInv docs \<Longrightarrow> storeInv (foldl (concurrentInsert True) docs rs)"
  by (induction rs arbitrary: docs) (simp_all add: concurrentInsert_storeInv)

lemma addTry_keeps_index: "uniqueIndex (snd (addTry ev rq w)) = uniqueIndex w"
  by (cases "body_email rq")
    (auto simp: addTry_def Let_def split: option.splits sum.splits)

lemma addTry_storeInv:
  assumes idx: "uniqueIndex w" and inv: "storeInv (coll w)"
  shows "storeInv (coll (snd (addTry ev rq w)))"
proof (cases "validateEmail (body_email rq)")
  case False
  with inv show ?thesis by (simp add: addTry_def)
next
  case v: True
  show ?thesis
  proof (cases "body_email rq")
    case (Str e)
    have inv1: "storeInv (foldl (concurrentInsert True) (coll w) (racing ev))"
      using inv by (rule racing_storeInv)
    from v Str have ve: "validateEmail (Str e)" by simp
    have ins: "storeInv (snd res)"
      if "insertOne True (foldl (concurrentInsert True) (coll w) (racing ev))
            (newEntry (toLowerCase (trim e)) (now ev) rq) = Inr res" for res
      using insertOne_storeInv[OF inv1 sanitized_is_normalized[OF ve] that] .
    show ?thesis
      using inv inv1 ins v Str idx
      by (auto simp: addTry_def Let_def split: option.splits sum.splits)
  qed (use inv v in \<open>simp_all add: addTry_def\<close>)
qed

lemma addToWaitlist_indexed:
  assumes "uniqueIndex w" and "storeInv (coll w)"
  shows "uniqueIndex (snd (addToWaitlist ev rq w)) \<and> storeInv (coll (snd (addToWaitlist ev rq w)))"
  using addTry_storeInv[OF assms, of ev rq] addTry_keeps_index[of ev rq w] assms(1)
  by (cases "addTry ev rq w") (auto simp: addToWaitlist_def split: sum.splits)

lemma others_keep_world:
  "snd (health ev w) = w" "snd (stats ev w) = w" "snd (listEntries ev q w) = w"
  "snd (checkEmail ev rq w) = w"
  by (simp_all add: health_def stats_def listEntries_def checkEmail_def split: sum.splits)

lemma ensureDBConnection_coll: "coll (snd (ensureDBConnection ev w)) = coll w"
  by (simp add: ensureDBConnection_def connectToDatabase_def split: connect_outcome.splits)

lemma ensureDBConnection_keeps_index:
  "uniqueIndex w \<Longrightarrow> uniqueIndex (snd (ensureDBConnection ev w))"
  by (simp add: ensureDBConnection_def connectToDatabase_def split: connect_outcome.splits)

text \<open>
  Where the unique index exists, every operation of either entry point keeps it and
  keeps the stored emails normalized and distinct, in any environment.
\<close>

lemma server_indexed:
  assumes "uniqueIndex w" and "storeInv (coll w)"
  shows "uniqueIndex (snd (server ev r w)) \<and> storeInv (coll (snd (server ev r w)))"
  using assms addToWaitlist_indexed[OF assms]
  by (cases r) (simp_all add: server_def others_keep_world)

lemma api_index_indexed:
  assumes "uniqueIndex w" and "storeInv (coll w)"
  shows "uniqueIndex (snd (api_index ev r w)) \<and> storeInv (coll (snd (api_index ev r w)))"
proof (cases "ensureDBConnection ev w")
  case (Pair res w')
  with ensureDBConnection_coll[of ev w] ensureDBConnection_keeps_index[OF assms(1), of ev] assms(2)
  have w': "uniqueIndex w'" "storeInv (coll w')" by simp_all
  show ?thesis
  proof (cases res)
    case None
    with Pair w' addToWaitlist_indexed[OF w'] show ?thesis
      by (cases r) (simp_all add: api_index_def others_keep_world)
  next
    case (Some a)
    with Pair w' show ?thesis by (simp add: api_index_def)
  qed
qed

text \<open>
  The server of server.js never serves without the index: it listens only when
  \<open>createIndex\<close> has succeeded. On a collection that has the invariant it starts in a state
  from which the invariant is kept.
\<close>

lemma startServer_indexed:
  "startServer oc w = Some w' \<Longrightarrow> uniqueIndex w' \<and> coll w' = coll w"
  by (auto simp: startServer_def split: connect_outcome.splits if_splits)

lemma at_most_one_per_key:
  "distinct (map f xs) \<Longrightarrow> length (filter (\<lambda>x. f x = y) xs) \<le> 1"
proof (induction xs)
  case Nil
  show ?case by simp
next
  case (Cons x xs)
  show ?case
  proof (cases "f x = y")
    case True
    from Cons.prems have "f x \<notin> f ` set xs" by simp
    with True have "filter (\<lambda>x. f x = y) xs = []"
      unfolding filter_empty_conv by blast
    with True show ?thesis by simp
  next
    case False
    with Cons show ?thesis by simp
  qed
qed

lemma storeInv_at_most_one:
  "storeInv docs \<Longrightarrow> length (filter (\<lambda>d. normalizedEmail d = Some n) docs) \<le> 1"
  using at_most_one_per_key[of normalizedEmail docs "Some n"] by (simp add: storeInv_def)

text \<open>
  With or without the index, every stored email is in normalized form in every reachable
  state; it is the uniqueness that needs the index.
\<close>

lemma insertOne_normalized:
  assumes "list_all storedNormalized docs" and "toLowerCase (trim n) = n"
    and "insertOne u docs (newEntry n t rq) = Inr res"
  shows "list_all storedNormalized (snd res)"
  using assms
  by (auto simp: insertOne_def storedNormalized_def fieldOf_stored split: if_splits)

lemma concurrentInsert_normalized:
  assumes "list_all storedNormalized docs"
  shows "list_all storedNormalized (concurrentInsert u docs r)"
proof (cases "body_email (fst r)")
  case (Str e)
  show ?thesis
  proof (cases "validateEmail (Str e)")
    case True
    show ?thesis
    proof (cases "insertOne u docs (newEntry (toLowerCase (trim e)) (snd r) (fst r))")
      case (Inl a)
      with Str True assms show ?thesis by (simp add: concurrentInsert_def)
    next
      case (Inr res)
      from insertOne_normalized[OF assms sanitized_is_normalized[OF True] Inr]
      show ?thesis using Str True Inr by (simp add: concurrentInsert_def)
    qed
  next
    case False
    with Str assms show ?thesis by (simp add: concurrentInsert_def)
  qed
qed (use assms in \<open>simp_all add: concurrentInsert_def\<close>)

lemma racing_normalized:
  "list_all storedNormalized docs \<Longrightarrow> list_all storedNormalized (foldl (concurrentInsert u) docs rs)"
  by (induction rs arbitrary: docs) (simp_all add: concurrentInsert_normalized)

lemma addTry_normalized:
  assumes inv: "list_all storedNormalized (coll w)"
  shows "list_all storedNormalized (coll (snd (addTry ev rq w)))"
proof (cases "validateEmail (body_email rq)")
  case False
  with inv show ?thesis by (simp add: addTry_def)
next
  case v: True
  show ?thesis
  proof (cases "body_email rq")
    case (Str e)
    have inv1: "list_all storedNormalized (foldl (concurrentInsert (uniqueIndex w)) (coll w) (racing ev))"
      using inv by (rule racing_normalized)
    from v Str have ve: "validateEmail (Str e)" by simp
    have ins: "list_all storedNormalized (snd res)"
      if "insertOne (uniqueIndex w) (foldl (concurrentInsert (uniqueIndex w)) (coll w) (racing ev))
            (newEntry (toLowerCase (trim e)) (now ev) rq) = Inr res" for res
      using insertOne_normalized[OF inv1 sanitized_is_normalized[OF ve] that] .
    show ?thesis
      using inv inv1 ins v Str
      by (auto simp: addTry_def Let_def split: option.splits sum.splits)
  qed (use inv v in \<open>simp_all add: addTry_def\<close>)
qed

lemma addToWaitlist_normalized:
  "list_all storedNormalized (coll w) \<Longrightarrow> list_all storedNormalized (coll (snd (addToWaitlist ev rq w)))"
  using addTry_normalized[of w ev rq]
  by (cases "addTry ev rq w") (auto simp: addToWaitlist_def split: sum.splits)

lemma server_normalized:
  "list_all storedNormalized (coll w) \<Longrightarrow> list_all storedNormalized (coll (snd (server ev r w)))"
  by (cases r) (simp_all add: server_def others_keep_world addToWaitlist_normalized)

lemma api_index_normalized:
  assumes "list_all storedNormalized (coll w)"
  shows "list_all storedNormalized (coll (snd (api_index ev r w)))"
proof (cases "ensureDBConnection ev w")
  case (Pair res w')
  with ensureDBConnection_coll[of ev w] assms have w': "list_all storedNormalized (coll w')" by simp
  show ?thesis
  proof (cases res)
    case None
    with Pair w' show ?thesis
      by (cases r) (simp_all add: api_index_def others_keep_world addToWaitlist_normalized)
  next
    case (Some a)
    with Pair w' show ?thesis by (simp add: api_index_def)
  qed
qed

lemma reachable_normalized: "reachable w \<Longrightarrow> list_all storedNormalized (coll w)"
proof (induction rule: reachable.induct)
  case fresh
  show ?case by simp
next
  case (by_api w ev r)
  then show ?case by (simp add: api_index_normalized)
next
  case (by_server w ev r)
  then show ?case by (simp add: server_normalized)
next
  case (by_start w oc w')
  then show ?case using startServer_indexed[of oc w w'] by simp
next
  case (by_restart w)
  then show ?case by simp
qed

text \<open>
  C1 at a new process on a new database whose first request connects but cannot create the
  index, followed by two callers adding \<open>a@b.com\<close> at the same time: \<open>db\<close> was set before
  \<open>createIndex\<close> was tried, so the second request does not connect again and runs without
  the index; its check finds nothing, the other caller's insert comes in, its own insert is
  accepted (201), and the reachable state holds the same email twice.
\<close>

theorem unindexed_race_stores_duplicate:
  "reachable (snd (api_index raced (AddToWaitlist (postOf ''A@B.com'')) withoutIndex))
   \<and> status (fst (api_index indexRefused Health coldStart)) = 500
   \<and> db withoutIndex \<and> \<not> uniqueIndex withoutIndex
   \<and> status (fst (api_index raced (AddToWaitlist (postOf ''A@B.com'')) withoutIndex)) = 201
   \<and> map (fieldOf ''email'') (coll (snd (api_index raced (AddToWaitlist (postOf ''A@B.com'')) withoutIndex)))
       = [BString ''a@b.com'', BString ''a@b.com'']
   \<and> \<not> storeInv (coll (snd (api_index raced (AddToWaitlist (postOf ''A@B.com'')) withoutIndex)))"
proof -
  have "reachable withoutIndex"
    unfolding withoutIndex_def coldStart_def by (rule reachable.by_api[OF reachable.fresh])
  then have r: "reachable (snd (api_index raced (AddToWaitlist (postOf ''A@B.com'')) withoutIndex))"
    by (rule reachable.by_api)
  have e: "status (fst (api_index indexRefused Health coldStart)) = 500"
    "db withoutIndex" "\<not> uniqueIndex withoutIndex"
    "status (fst (api_index raced (AddToWaitlist (postOf ''A@B.com'')) withoutIndex)) = 201"
    "map (fieldOf ''email'') (coll (snd (api_index raced (AddToWaitlist (postOf ''A@B.com'')) withoutIndex)))
       = [BString ''a@b.com'', BString ''a@b.com'']"
    "\<not> storeInv (coll (snd (api_index raced (AddToWaitlist (postOf ''A@B.com'')) withoutIndex)))"
    by code_simp+
  from r e show ?thesis by blast
qed

text \<open>With the index the same two callers get 201 and 409 and one entry is stored.\<close>

lemma indexed_race_stores_one:
  "status (fst (api_index raced (AddToWaitlist (postOf ''A@B.com'')) connectedEmpty)) = 409
   \<and> map (fieldOf ''email'') (coll (snd (api_index raced (AddToWaitlist (postOf ''A@B.com'')) connectedEmpty)))
       = [BString ''a@b.com'']"
  by code_simp

section \<open>Rounding to a double\<close>

lemma excessBits_small: "m < 2 ^ 53 \<Longrightarrow> excessBits m = 0"
  by (simp add: excessBits.simps)

lemma roundDouble_exact: "\<bar>n\<bar> < 2 ^ 53 \<Longrightarrow> roundDouble n = Finite n"
proof -
  assume a: "\<bar>n\<bar> < 2 ^ 53"
  have "(2::int) ^ 53 < 2 ^ 1024" by simp
  with a have "\<not> (2::int) ^ 1024 \<le> \<bar>n\<bar>" by linarith
  with a show ?thesis
    by (simp add: roundDouble_def excessBits_small Let_def)
qed

lemma excessBits_quotient:
  "0 < m \<Longrightarrow> 0 < m div 2 ^ excessBits m"
proof (induction m rule: excessBits.induct)
  case (1 m)
  show ?case
  proof (cases "m < 2 ^ 53")
    case True
    with "1.prems" show ?thesis by (simp add: excessBits_small)
  next
    case False
    then have "0 < m div 2" by simp
    with "1.IH"[OF False] have "0 < (m div 2) div 2 ^ excessBits (m div 2)" by simp
    moreover have "excessBits m = Suc (excessBits (m div 2))"
      using False by (subst excessBits.simps) simp
    ultimately show ?thesis
      by (simp add: zdiv_zmult2_eq)
  qed
qed

text \<open>The double of a negative integer is negative or the negative infinity.\<close>

lemma roundDouble_negative:
  assumes "n < 0"
  shows "roundDouble n = NegInfinity \<or> (\<exists>v. roundDouble n = Finite v \<and> v < 0)"
proof -
  from assms have "0 < \<bar>n\<bar>" by simp
  then have q: "0 < \<bar>n\<bar> div 2 ^ excessBits \<bar>n\<bar>" by (rule excessBits_quotient)
  define e where "e = excessBits \<bar>n\<bar>"
  define q where "q = \<bar>n\<bar> div 2 ^ e"
  define r where "r = \<bar>n\<bar> mod 2 ^ e"
  define v where "v = (if 2 ^ e < 2 * r \<or> (2 * r = 2 ^ e \<and> odd q) then q + 1 else q) * 2 ^ e"
  from q have "0 < q" by (simp add: q_def e_def)
  then have "0 < v" by (simp add: v_def)
  moreover have "roundDouble n = (if 2 ^ 1024 \<le> v then NegInfinity else Finite (- v))"
    using assms by (simp add: roundDouble_def Let_def v_def q_def r_def e_def)
  ultimately show ?thesis by auto
qed

section \<open>Requests without an email\<close>

lemma undefined_invalid: "\<not> validateEmail Undefined"
  by code_simp

text \<open>
  C10: when the body has no \<open>email\<close> field, the add-to-waitlist handler and the check-email
  handler answer 400 with \<open>success: false\<close>, whatever the environment, and the state (the
  collection with it) is unchanged.
\<close>

theorem missing_email_rejected:
  "body_email rq = Undefined \<Longrightarrow>
     addToWaitlist ev rq w =
       (\<lparr>status = 400,
         body = JObject [(''success'', JBool False),
                         (''message'', JString ''Please provide a valid email address'')]\<rparr>, w)
     \<and> checkEmail ev rq w =
       (\<lparr>status = 400,
         body = JObject [(''success'', JBool False), (''message'', JString ''Invalid email format'')]\<rparr>, w)"
  by (simp add: addToWaitlist_def addTry_def checkEmail_def checkTry_def undefined_invalid)

theorem missing_email_rejected_witness:
  "body_email noEmail = Undefined
   \<and> status (fst (addToWaitlist unreachable noEmail threeAdded)) = 400
   \<and> snd (addToWaitlist unreachable noEmail threeAdded) = threeAdded
   \<and> status (fst (checkEmail unreachable noEmail threeAdded)) = 400
   \<and> snd (checkEmail unreachable noEmail threeAdded) = threeAdded"
proof -
  have h: "body_email noEmail = Undefined" by (simp add: noEmail_def)
  from missing_email_rejected[OF h, of unreachable threeAdded] h show ?thesis by simp
qed

text \<open>The same through the routes: of server.js always, of api/index.js once \<open>db\<close> is set.\<close>

lemma missing_email_routes:
  assumes "body_email rq = Undefined"
  shows "status (fst (server ev (AddToWaitlist rq) w)) = 400"
    and "status (fst (server ev (CheckEmail rq) w)) = 400"
    and "db w \<Longrightarrow> status (fst (api_index ev (AddToWaitlist rq) w)) = 400"
    and "db w \<Longrightarrow> status (fst (api_index ev (CheckEmail rq) w)) = 400"
  using assms
  by (simp_all add: server_def api_index_def ensureDBConnection_def addToWaitlist_def addTry_def
      checkEmail_def checkTry_def undefined_invalid)

section \<open>Duplicates\<close>

text \<open>
  C3: a duplicate found by the check before the insert and a duplicate refused by the
  unique index at the insert (error code 11000) get the same response: status 409 and the
  same message.
\<close>

theorem duplicate_same_response:
  assumes "foundByPreCheck ev rq w" and "raisedByConstraint ev' rq' w'"
  shows "fst (addToWaitlist ev rq w) = fst (addToWaitlist ev' rq' w')
     \<and> fst (addToWaitlist ev rq w) =
         \<lparr>status = 409,
          body = JObject [(''success'', JBool False),
                          (''message'', JString ''This email is already on our waitlist!'')]\<rparr>"
proof -
  from assms(1) have a: "fst (addToWaitlist ev rq w) =
         \<lparr>status = 409,
          body = JObject [(''success'', JBool False),
                          (''message'', JString ''This email is already on our waitlist!'')]\<rparr>"
    by (cases "body_email rq")
      (auto simp: foundByPreCheck_def addToWaitlist_def addTry_def Let_def)
  from assms(2) have b: "fst (addToWaitlist ev' rq' w') =
         \<lparr>status = 409,
          body = JObject [(''success'', JBool False),
                          (''message'', JString ''This email is already on our waitlist!'')]\<rparr>"
    by (cases "body_email rq'")
      (auto simp: raisedByConstraint_def addToWaitlist_def addTry_def Let_def)
  from a b show ?thesis by simp
qed

theorem duplicate_same_response_witness:
  "foundByPreCheck quiet (postOf ''alice@example.com'') threeAdded
   \<and> raisedByConstraint (quiet\<lparr>racing := [(postOf ''Dave@Example.com'', 1700000000001)]\<rparr>)
        (postOf ''dave@example.com'') threeAdded
   \<and> fst (addToWaitlist quiet (postOf ''alice@example.com'') threeAdded)
       = fst (addToWaitlist (quiet\<lparr>racing := [(postOf ''Dave@Example.com'', 1700000000001)]\<rparr>)
           (postOf ''dave@example.com'') threeAdded)
   \<and> fst (addToWaitlist quiet (postOf ''alice@example.com'') threeAdded) =
         \<lparr>status = 409,
          body = JObject [(''success'', JBool False),
                          (''message'', JString ''This email is already on our waitlist!'')]\<rparr>"
proof -
  have p: "foundByPreCheck quiet (postOf ''alice@example.com'') threeAdded"
    by code_simp
  have c: "raisedByConstraint (quiet\<lparr>racing := [(postOf ''Dave@Example.com'', 1700000000001)]\<rparr>)
        (postOf ''dave@example.com'') threeAdded"
    by code_simp
  from duplicate_same_response[OF p c] p c show ?thesis by blast
qed

section \<open>Health\<close>

text \<open>
  C9 at a health request to api/index.js in a new process while the store cannot be
  reached: the middleware answers 500.
\<close>

theorem health_fails_when_store_unreachable:
  "api_index unreachable Health coldStart =
     (\<lparr>status = 500,
       body = JObject [(''success'', JBool False), (''message'', JString ''Database connection failed'')]\<rparr>,
      coldStart)"
  by code_simp

text \<open>
  So is every request to api/index.js that needs a connection and cannot get one.
\<close>

lemma api_index_without_connection:
  assumes "\<not> db w" "\<not> cachedClient w" "connectOutcome ev = ConnectFails"
  shows "api_index ev r w =
     (\<lparr>status = 500,
       body = JObject [(''success'', JBool False), (''message'', JString ''Database connection failed'')]\<rparr>,
      w)"
  using assms by (simp add: api_index_def ensureDBConnection_def connectToDatabase_def)

text \<open>The health route of server.js has no middleware and always answers 200.\<close>

lemma server_health_never_fails:
  "server ev Health w =
     (\<lparr>status = 200,
       body = JObject [(''status'', JString ''OK''), (''timestamp'', JDate (now ev)),
                       (''database'', JString (if db w then ''Connected'' else ''Disconnected''))]\<rparr>, w)"
  by (simp add: server_def health_def)

section \<open>Pages below 1\<close>

text \<open>
  C6 at \<open>page=-1\<close>: the skip is negative, the store refuses it and the response is 500,
  where \<open>page=1\<close> is answered 200.
\<close>

theorem negative_page_fails:
  "fst (listEntries quiet (queryOf (Some ''-1'') None None None) threeAdded) =
     \<lparr>status = 500,
      body = JObject [(''success'', JBool False), (''message'', JString ''Failed to get waitlist entries'')]\<rparr>
   \<and> status (fst (listEntries quiet (queryOf (Some ''1'') None None None) threeAdded)) = 200"
  by code_simp

text \<open>Every listing with a page below 1 and a limit of at least 1 is answered 500.\<close>

lemma times_negative_fails:
  assumes "x = NegInfinity \<or> (\<exists>v. x = Finite v \<and> v < 0)" and "0 < m"
  shows "asInt64 (multiply x (Finite m)) = None \<or> (\<exists>s. asInt64 (multiply x (Finite m)) = Some s \<and> s < 0)"
proof -
  from assms(1) show ?thesis
  proof
    assume "x = NegInfinity"
    with assms(2) show ?thesis by (simp add: asInt64_def)
  next
    assume "\<exists>v. x = Finite v \<and> v < 0"
    then obtain v where x: "x = Finite v" and v: "v < 0" by blast
    from v assms(2) have "v * m < 0" by (rule mult_neg_pos)
    from roundDouble_negative[OF this] show ?thesis
      unfolding x by (auto simp: asInt64_def)
  qed
qed

lemma page_below_one_fails:
  assumes "pageOf q = Finite P" "P < 1" "limitOf q = Finite L" "1 \<le> L"
  shows "status (fst (listEntries ev q w)) = 500"
proof -
  from assms(2) have "P - 1 < 0" by simp
  from roundDouble_negative[OF this]
  have n: "minusOne (pageOf q) = NegInfinity \<or> (\<exists>v. minusOne (pageOf q) = Finite v \<and> v < 0)"
    by (simp add: assms(1))
  from assms(4) have m: "mathMin (limitOf q) (Finite 100) = Finite (min L 100)" "0 < min L 100"
    by (simp_all add: mathMin_def assms(3) min_def)
  from times_negative_fails[OF n m(2)]
  have "\<exists>e. toArray (sortByOf q) (sortOrderOf q)
            (multiply (minusOne (pageOf q)) (mathMin (limitOf q) (Finite 100)))
            (mathMin (limitOf q) (Finite 100)) [''email'', ''createdAt'', ''source'', ''_id''] (coll w) = Inl e"
    unfolding m(1) by (auto simp: toArray_def split: option.splits)
  then show ?thesis
    by (auto simp: listEntries_def listTry_def Let_def split: option.splits)
qed

text \<open>A page of 0 and an absent page are page 1.\<close>

lemma parseInt_zero_one:
  "parseInt ''0'' = Finite 0" "parseInt ''1'' = Finite 1" "parseInt ''undefined'' = NaN"
  by code_simp+

lemma page_zero_or_absent_is_page_one:
  "listEntries ev (queryOf (Some ''0'') l sb so) w = listEntries ev (queryOf (Some ''1'') l sb so) w"
  "listEntries ev (queryOf None l sb so) w = listEntries ev (queryOf (Some ''1'') l sb so) w"
  by (simp_all add: listEntries_def listTry_def pageOf_def limitOf_def sortByOf_def sortOrderOf_def
      parseQuery_def orDefault_def queryOf_def parseInt_zero_one)

section \<open>Listings\<close>





lemma set_insertSorted: "set (insertSorted R x ys) = insert x (set ys)"
  by (induction ys) auto



lemma length_insertSorted: "length (insertSorted R x ys) = Suc (length ys)"
  by (induction ys) auto

lemma length_sortDocs: "length (sortDocs k dir docs) = length docs"
  unfolding sortDocs_def by (induction docs) (simp_all add: length_insertSorted)

lemma set_sortDocs: "set (sortDocs k dir docs) = set docs"
  unfolding sortDocs_def by (induction docs) (simp_all add: set_insertSorted)



text \<open>What a listing answers when it succeeds, and when it does.\<close>

lemma listTry_Inr:
  assumes "listTry ev q w = Inr res"
  shows "db w \<and> firstCall ev = None \<and> secondCall ev = None
    \<and> status res = 200
    \<and> (\<exists>s l. entriesOf res
          = map docJson (map (project [''email'', ''createdAt'', ''source'', ''_id''])
              (cursor (sortByOf q) (sortOrderOf q) s l (coll w))))
    \<and> sortingEcho res = JString (if q_sortOrder q = Some ''asc'' then ''asc'' else ''desc'')
    \<and> limitEcho res = numberJson (mathMin (limitOf q) (Finite 100))"
proof -
  from assms have env: "db w" "firstCall ev = None" "secondCall ev = None"
    by (auto simp: listTry_def Let_def split: option.splits if_splits)
  from assms env obtain entries
    where t: "toArray (sortByOf q) (sortOrderOf q)
            (multiply (minusOne (pageOf q)) (mathMin (limitOf q) (Finite 100)))
            (mathMin (limitOf q) (Finite 100)) [''email'', ''createdAt'', ''source'', ''_id''] (coll w)
          = Inr entries"
    by (auto simp: listTry_def Let_def split: sum.splits)
  then obtain s l
    where c: "entries = map (project [''email'', ''createdAt'', ''source'', ''_id''])
                 (cursor (sortByOf q) (sortOrderOf q) s l (coll w))"
    by (auto simp: toArray_def split: option.splits if_splits)
  from assms env t have res: "status res = 200" "entriesOf res = map docJson entries"
    "sortingEcho res = JString (if q_sortOrder q = Some ''asc'' then ''asc'' else ''desc'')"
    "limitEcho res = numberJson (mathMin (limitOf q) (Finite 100))"
    by (auto simp: listTry_def Let_def entriesOf_def sortingEcho_def limitEcho_def sortOrderOf_def)
  from res(2) c have "\<exists>s l. entriesOf res
          = map docJson (map (project [''email'', ''createdAt'', ''source'', ''_id''])
              (cursor (sortByOf q) (sortOrderOf q) s l (coll w)))"
    by blast
  with env res show ?thesis by simp
qed

lemma listTry_ok:
  assumes "db w" "firstCall ev = None" "secondCall ev = None"
    and "asInt64 (multiply (minusOne (pageOf q)) (mathMin (limitOf q) (Finite 100))) = Some s" "0 \<le> s"
    and "asInt64 (mathMin (limitOf q) (Finite 100)) = Some l"
  shows "\<exists>res. listTry ev q w = Inr res
     \<and> entriesOf res = map docJson (map (project [''email'', ''createdAt'', ''source'', ''_id''])
              (cursor (sortByOf q) (sortOrderOf q) s l (coll w)))"
  using assms by (simp add: listTry_def Let_def toArray_def entriesOf_def)


lemma listEntries_fail_entries:
  "listTry ev q w = Inl e \<Longrightarrow> entriesOf (fst (listEntries ev q w)) = []"
  by (simp add: listEntries_def entriesOf_def)



lemma keys_projected: "set (keysOf (docJson (project ks d))) \<subseteq> set ks"
  by (auto simp: docJson_def project_def)

text \<open>
  C8: whatever is stored, every entry of every listing is an object with no other fields
  than \<open>_id\<close>, \<open>email\<close>, \<open>createdAt\<close> and \<open>source\<close>; \<open>ipAddress\<close> and \<open>userAgent\<close> are
  never among them.
\<close>

theorem listing_hides_provenance:
  "\<forall>e \<in> set (entriesOf (fst (listEntries ev q w))).
      (\<exists>kvs. e = JObject kvs) \<and> set (keysOf e) \<subseteq> set listedFields
      \<and> ''ipAddress'' \<notin> set (keysOf e) \<and> ''userAgent'' \<notin> set (keysOf e)"
proof (cases "listTry ev q w")
  case (Inl a)
  then show ?thesis by (simp add: listEntries_fail_entries)
next
  case (Inr res)
  then have f: "fst (listEntries ev q w) = res" by (simp add: listEntries_def)
  have k: "set (keysOf (docJson (project [''email'', ''createdAt'', ''source'', ''_id''] d)))
            \<subseteq> {''email'', ''createdAt'', ''source'', ''_id''}" for d
    using keys_projected[of "[''email'', ''createdAt'', ''source'', ''_id'']" d] by simp
  have "(\<exists>kvs. docJson (project [''email'', ''createdAt'', ''source'', ''_id''] d) = JObject kvs)
      \<and> set (keysOf (docJson (project [''email'', ''createdAt'', ''source'', ''_id''] d))) \<subseteq> set listedFields
      \<and> ''ipAddress'' \<notin> set (keysOf (docJson (project [''email'', ''createdAt'', ''source'', ''_id''] d)))
      \<and> ''userAgent'' \<notin> set (keysOf (docJson (project [''email'', ''createdAt'', ''source'', ''_id''] d)))" for d
    using k[of d] by (auto simp: listedFields_def docJson_def)
  moreover from listTry_Inr[OF Inr] obtain s l
    where "entriesOf res = map docJson (map (project [''email'', ''createdAt'', ''source'', ''_id''])
                (cursor (sortByOf q) (sortOrderOf q) s l (coll w)))"
    by blast
  ultimately show ?thesis unfolding f by simp
qed

theorem listing_hides_provenance_witness:
  "map (fieldOf ''ipAddress'') (coll threeAdded)
      = [BString ''203.0.113.7'', BString ''203.0.113.7'', BString ''203.0.113.7'']
   \<and> map keysOf (entriesOf (fst (listEntries quiet (queryOf None None None None) threeAdded)))
      = [[''_id'', ''email'', ''createdAt'', ''source''], [''_id'', ''email'', ''createdAt'', ''source''],
         [''_id'', ''email'', ''createdAt'', ''source'']]
   \<and> list_all (\<lambda>e. ''ipAddress'' \<notin> set (keysOf e) \<and> ''userAgent'' \<notin> set (keysOf e))
        (entriesOf (fst (listEntries quiet (queryOf None None None None) threeAdded)))"
proof -
  have a: "map (fieldOf ''ipAddress'') (coll threeAdded)
      = [BString ''203.0.113.7'', BString ''203.0.113.7'', BString ''203.0.113.7'']"
    by code_simp
  have b: "map keysOf (entriesOf (fst (listEntries quiet (queryOf None None None None) threeAdded)))
      = [[''_id'', ''email'', ''createdAt'', ''source''], [''_id'', ''email'', ''createdAt'', ''source''],
         [''_id'', ''email'', ''createdAt'', ''source'']]"
    by code_simp
  from listing_hides_provenance[of quiet "queryOf None None None None" threeAdded]
  have c: "list_all (\<lambda>e. ''ipAddress'' \<notin> set (keysOf e) \<and> ''userAgent'' \<notin> set (keysOf e))
        (entriesOf (fst (listEntries quiet (queryOf None None None None) threeAdded)))"
    unfolding list_all_iff by blast
  from a b c show ?thesis by blast
qed

section \<open>The limit of a listing\<close>

text \<open>
  Nothing clamps a negative limit from below: on the first page the listing reports it
  as its limit and returns as many entries as the limit is long, or all there are.
\<close>

lemma negative_limit_is_not_clamped:
  assumes "db w" "firstCall ev = None" "secondCall ev = None"
    and "pageOf q = Finite 1" "limitOf q = Finite L" "L < 0" "- (2 ^ 53) < L"
  shows "status (fst (listEntries ev q w)) = 200
     \<and> limitEcho (fst (listEntries ev q w)) = JNumber L
     \<and> length (entriesOf (fst (listEntries ev q w))) = min (nat (- L)) (length (coll w))"
proof -
  have z: "roundDouble 0 = Finite 0" by (rule roundDouble_exact) simp
  from assms(6) have m: "mathMin (limitOf q) (Finite 100) = Finite L"
    by (simp add: mathMin_def assms(5))
  have k: "multiply (minusOne (pageOf q)) (mathMin (limitOf q) (Finite 100)) = Finite 0"
    by (simp add: m assms(4) z)
  have "(2::int) ^ 53 < 2 ^ 63" by simp
  with assms(6,7) have l: "asInt64 (Finite L) = Some L" by (simp add: asInt64_def)
  have s: "asInt64 (Finite 0) = Some 0" by (simp add: asInt64_def)
  from listTry_ok[OF assms(1-3), of q 0 L] k m l s obtain res
    where res: "listTry ev q w = Inr res"
      and e: "entriesOf res = map docJson (map (project [''email'', ''createdAt'', ''source'', ''_id''])
              (cursor (sortByOf q) (sortOrderOf q) 0 L (coll w)))"
    by auto
  then have f: "fst (listEntries ev q w) = res" by (simp add: listEntries_def)
  from assms(6) have "length (cursor (sortByOf q) (sortOrderOf q) 0 L (coll w))
      = min (nat (- L)) (length (coll w))"
    by (simp add: cursor_def length_sortDocs min_def)
  with listTry_Inr[OF res] e m show ?thesis unfolding f by simp
qed

text \<open>
  C5 at \<open>limit=-1000\<close> on a collection of 101 entries: \<open>Math.min(-1000, 100)\<close> is
  \<open>-1000\<close>, which the response reports as its limit and which the store takes as a limit
  of 1000, so the listing returns all 101 entries, more than the 100 the clamp is for.
\<close>

theorem negative_limit_returns_more_than_100:
  "status (fst (listEntries quiet (queryOf None (Some ''-1000'') None None) crowded)) = 200
   \<and> limitEcho (fst (listEntries quiet (queryOf None (Some ''-1000'') None None) crowded))
       = JNumber (- 1000)
   \<and> length (entriesOf (fst (listEntries quiet (queryOf None (Some ''-1000'') None None) crowded)))
       = 101"
proof -
  let ?q = "queryOf None (Some ''-1000'') None None"
  have h: "db crowded" "firstCall quiet = None" "secondCall quiet = None"
    by (simp_all add: crowded_def quiet_def)
  have p: "pageOf ?q = Finite 1" "limitOf ?q = Finite (- 1000)"
    by code_simp+
  have n: "length (coll crowded) = 101" by (simp add: crowded_def)
  from negative_limit_is_not_clamped[OF h p] n show ?thesis by simp
qed

text \<open>
  Where page and limit are at least 1 (and the page below \<open>2^46\<close>, so that the doubles are
  exact) and the store answers, the listing is the one the clamp is for: the limit is cut
  at 100, the first \<open>(page - 1) * limit\<close> entries of the order are left out, and at most
  100 entries are returned.
\<close>

lemma listing_window:
  assumes "db w" "firstCall ev = None" "secondCall ev = None"
    and "pageOf q = Finite P" "1 \<le> P" "P < 2 ^ 46" "limitOf q = Finite L" "1 \<le> L"
  shows "status (fst (listEntries ev q w)) = 200
     \<and> limitEcho (fst (listEntries ev q w)) = JNumber (min L 100)
     \<and> entriesOf (fst (listEntries ev q w))
         = map docJson (map (project [''email'', ''createdAt'', ''source'', ''_id''])
             (take (nat (min L 100)) (drop (nat ((P - 1) * min L 100))
                (sortDocs (sortByOf q) (sortOrderOf q) (coll w)))))
     \<and> length (entriesOf (fst (listEntries ev q w))) \<le> 100"
proof -
  let ?m = "min L 100"
  from assms(8) have m: "mathMin (limitOf q) (Finite 100) = Finite ?m" and mb: "1 \<le> ?m" "?m \<le> 100"
    by (simp_all add: mathMin_def assms(7) min_def)
  have p46: "(2::int) ^ 46 < 2 ^ 53" by simp
  from assms(5,6) p46 have "\<bar>P - 1\<bar> < 2 ^ 53" by linarith
  then have p: "minusOne (pageOf q) = Finite (P - 1)"
    by (simp add: assms(4) roundDouble_exact)
  from assms(5) mb have nn: "0 \<le> (P - 1) * ?m" by simp
  from assms(5,6) have "P - 1 \<le> 2 ^ 46" by simp
  with mb assms(5) have "(P - 1) * ?m \<le> 2 ^ 46 * 100" by (intro mult_mono) simp_all
  moreover have "(2::int) ^ 46 * 100 < 2 ^ 53" by simp
  ultimately have lt: "(P - 1) * ?m < 2 ^ 53" by linarith
  with nn have "\<bar>(P - 1) * ?m\<bar> < 2 ^ 53" by simp
  then have k: "multiply (minusOne (pageOf q)) (mathMin (limitOf q) (Finite 100)) = Finite ((P - 1) * ?m)"
    by (simp add: p m roundDouble_exact)
  have b: "(2::int) ^ 53 < 2 ^ 63" by simp
  from nn lt b have s: "asInt64 (Finite ((P - 1) * ?m)) = Some ((P - 1) * ?m)"
    by (simp add: asInt64_def)
  have "(100::int) < 2 ^ 63" by simp
  with mb have l: "asInt64 (Finite ?m) = Some ?m" by (simp add: asInt64_def)
  from listTry_ok[OF assms(1-3), of q "(P - 1) * ?m" ?m] k m s l nn obtain res
    where res: "listTry ev q w = Inr res"
      and e: "entriesOf res = map docJson (map (project [''email'', ''createdAt'', ''source'', ''_id''])
              (cursor (sortByOf q) (sortOrderOf q) ((P - 1) * ?m) ?m (coll w)))"
    by auto
  then have f: "fst (listEntries ev q w) = res" by (simp add: listEntries_def)
  from mb have c: "cursor (sortByOf q) (sortOrderOf q) ((P - 1) * ?m) ?m (coll w)
      = take (nat ?m) (drop (nat ((P - 1) * ?m)) (sortDocs (sortByOf q) (sortOrderOf q) (coll w)))"
  proof -
    from mb have "?m \<noteq> 0" "\<bar>?m\<bar> = ?m" by simp_all
    then show ?thesis by (simp only: cursor_def Let_def if_False)
  qed
  have "length (take (nat ?m) (drop (nat ((P - 1) * ?m)) (sortDocs (sortByOf q) (sortOrderOf q) (coll w))))
      \<le> nat ?m" by simp
  also from mb have "\<dots> \<le> 100" by simp
  finally have len: "length (take (nat ?m) (drop (nat ((P - 1) * ?m))
      (sortDocs (sortByOf q) (sortOrderOf q) (coll w)))) \<le> 100" .
  from listTry_Inr[OF res] e c m len show ?thesis unfolding f by simp
qed

text \<open>The two examples of the specification: a limit of 1000, and page 2 with limit 10.\<close>

lemma limit_1000_page_2_limit_10:
  "mathMin (limitOf (queryOf p (Some ''1000'') sb so)) (Finite 100) = Finite 100"
  "pageOf (queryOf (Some ''2'') (Some ''10'') sb so) = Finite 2"
  "limitOf (queryOf (Some ''2'') (Some ''10'') sb so) = Finite 10"
  by code_simp+

section \<open>Two submissions with the same normalized form\<close>

lemma findOne_None:
  "findOne docs n = None \<longleftrightarrow> \<not> list_ex (\<lambda>d. fieldOf ''email'' d = BString n) docs"
  by (auto simp: findOne_def find_None_iff list_ex_iff)

text \<open>
  C2 at \<open>a@b.com\<close> followed by \<open>A@B.com\<close> with a trailing space, the pair the
  specification names. Both have the normalized form \<open>a@b.com\<close>; the first is added, the
  second is answered 400 and not 409, because the validation runs on the string as
  submitted, before the \<open>trim\<close> that would remove the space.
\<close>

theorem padded_duplicate_is_rejected_as_invalid:
  "status (fst (addToWaitlist quiet (postOf ''a@b.com'') connectedEmpty)) = 201
   \<and> toLowerCase (trim ''A@B.com '') = toLowerCase (trim ''a@b.com'')
   \<and> status (fst (addToWaitlist quiet (postOf ''A@B.com '')
        (snd (addToWaitlist quiet (postOf ''a@b.com'') connectedEmpty)))) = 400
   \<and> status (fst (addToWaitlist quiet (postOf ''A@B.com '')
        (snd (addToWaitlist quiet (postOf ''a@b.com'') connectedEmpty)))) \<noteq> 409"
  by code_simp

text \<open>
  The \<open>trim\<close> of both handlers never removes anything: what passes the validation has no
  white space (lemma \<open>trim_after_validation\<close>). Two addresses that pass the validation and
  have the same normalized form, whatever their case, do get 201 and then 409.
\<close>

lemma same_normalized_form_conflict:
  assumes v1: "validateEmail (Str e1)" and v2: "validateEmail (Str e2)"
    and same: "toLowerCase (trim e1) = toLowerCase (trim e2)"
    and w: "db w" "findOne (coll w) (toLowerCase (trim e1)) = None"
    and ev1: "firstCall ev1 = None" "secondCall ev1 = None" "racing ev1 = []"
    and ev2: "firstCall ev2 = None"
    and b1: "body_email rq1 = Str e1" and b2: "body_email rq2 = Str e2"
  shows "status (fst (addToWaitlist ev1 rq1 w)) = 201
     \<and> status (fst (addToWaitlist ev2 rq2 (snd (addToWaitlist ev1 rq1 w)))) = 409"
proof -
  let ?n = "toLowerCase (trim e1)"
  let ?d = "(''_id'', BObjectId (length (coll w))) # newEntry ?n (now ev1) rq1"
  from w(2) have fresh: "\<not> list_ex (\<lambda>d. fieldOf ''email'' d = BString ?n) (coll w)"
    by (simp add: findOne_None)
  then have ins: "insertOne (uniqueIndex w) (coll w) (newEntry ?n (now ev1) rq1)
      = Inr (length (coll w), coll w @ [?d])"
    by (simp add: insertOne_def fieldOf_newEntry)
  have first: "addToWaitlist ev1 rq1 w =
      (\<lparr>status = 201,
        body = JObject [(''success'', JBool True), (''message'', JString ''Successfully added to waitlist''),
                        (''data'', JObject [(''id'', JObjectId (length (coll w))), (''email'', JString ?n)])]\<rparr>,
       w\<lparr>coll := coll w @ [?d]\<rparr>)"
    using v1 b1 w ev1 ins by (simp add: addToWaitlist_def addTry_def Let_def)
  have "findOne (coll w @ [?d]) ?n \<noteq> None"
    by (simp add: findOne_None fieldOf_stored)
  then obtain x where x: "findOne (coll w @ [?d]) (toLowerCase (trim e2)) = Some x"
    unfolding same by auto
  have second: "status (fst (addToWaitlist ev2 rq2 (w\<lparr>coll := coll w @ [?d]\<rparr>))) = 409"
    using v2 b2 w(1) ev2 x by (simp add: addToWaitlist_def addTry_def Let_def)
  from first second show ?thesis by simp
qed

lemma case_differences_collide:
  "status (fst (addToWaitlist quiet (postOf ''a@b.com'') connectedEmpty)) = 201
   \<and> status (fst (addToWaitlist quiet (postOf ''A@B.com'')
        (snd (addToWaitlist quiet (postOf ''a@b.com'') connectedEmpty)))) = 409"
  by code_simp

end
